theory Spec2Isabelle
  imports Complex_Main
begin


section \<open>The JavaScript values the schedule engine computes with\<close>

text \<open>
  The schedule engine of the allergy tracker lives in the server's route module: the three
  functions \<^verbatim>\<open>calculateProgressiveAmount\<close>, \<^verbatim>\<open>calculateProgressiveTime\<close> and
  \<^verbatim>\<open>generateScheduleEntries\<close>. They are TypeScript, so they compute with IEEE-754 doubles,
  UTF-16 strings and \<^verbatim>\<open>Date\<close> objects. This section models the part of the ECMAScript
  runtime those three functions call.

  Conventions of the model:
  \<^item> a \<^verbatim>\<open>number\<close> is a finite double, given by its exact rational value, or NaN or one of
    the infinities. Every arithmetic operation computes the exact rational result and rounds
    it to the nearest double, ties to even, as IEEE-754 prescribes. Negative zero is
    identified with zero: the engine never divides by a computed zero and prints zero
    without a sign, so the sign of zero is not observable in it;
  \<^item> a string is a list of 8-bit characters; the model is exact for ASCII text (the
    lower-casing and white space of characters beyond ASCII are not modelled);
  \<^item> \<^verbatim>\<open>null\<close> is \<open>None\<close>.
\<close>

datatype number = Fin rat | NaN | PosInf | NegInf

subsection \<open>Rounding a rational to the nearest double\<close>

text \<open>The number of binary digits of a positive integer.\<close>

function bits :: "int \<Rightarrow> nat" where
  "bits n = (if n \<le> 0 then 0 else Suc (bits (n div 2)))"
  by pat_completeness auto
termination
  by (relation "measure nat") auto

declare bits.simps [simp del]

text \<open>\<open>ilog2 x\<close> is the binary exponent of a positive rational: \<open>2^e \<le> x < 2^(e+1)\<close>.\<close>

definition ilog2 :: "rat \<Rightarrow> int" where
  "ilog2 x = (if 1 \<le> x then int (bits \<lfloor>x\<rfloor>) - 1
              else - int (bits (\<lceil>1 / x\<rceil> - 1)))"

definition roundHalfEven :: "rat \<Rightarrow> int" where
  "roundHalfEven y = (let f = \<lfloor>y\<rfloor>; d = y - of_int f in
     if d < 1 / 2 then f else if 1 / 2 < d then f + 1 else if even f then f else f + 1)"

text \<open>
  Doubles have 53 significant bits and a least exponent of \<open>-1022\<close> (below it the spacing
  stays \<open>2^-1074\<close>: the subnormal numbers); a result that rounds to \<open>2^1024\<close> or more,
  that is, one whose binary exponent is at least 1024, is infinite.
\<close>

definition rnd :: "rat \<Rightarrow> number" where
  "rnd x = (if x = 0 then Fin 0 else
     let a = \<bar>x\<bar>; e = max (ilog2 a) (- 1022);
         v = of_int (roundHalfEven (a * 2 powi (52 - e))) * 2 powi (e - 52)
     in if 1024 \<le> ilog2 v then (if 0 < x then PosInf else NegInf) else Fin (sgn x * v))"

subsection \<open>Arithmetic on numbers\<close>

fun dneg :: "number \<Rightarrow> number" where
  "dneg (Fin a) = Fin (- a)"
| "dneg NaN = NaN"
| "dneg PosInf = NegInf"
| "dneg NegInf = PosInf"

fun dadd :: "number \<Rightarrow> number \<Rightarrow> number" where
  "dadd (Fin a) (Fin b) = rnd (a + b)"
| "dadd NaN y = NaN"
| "dadd x NaN = NaN"
| "dadd PosInf NegInf = NaN"
| "dadd NegInf PosInf = NaN"
| "dadd PosInf y = PosInf"
| "dadd NegInf y = NegInf"
| "dadd (Fin a) y = y"

definition dsub :: "number \<Rightarrow> number \<Rightarrow> number" where
  "dsub x y = dadd x (dneg y)"

fun dsgn :: "number \<Rightarrow> int" where
  "dsgn (Fin a) = (if a = 0 then 0 else if 0 < a then 1 else - 1)"
| "dsgn NaN = 0"
| "dsgn PosInf = 1"
| "dsgn NegInf = - 1"

definition infOfSign :: "int \<Rightarrow> number" where
  "infOfSign s = (if s = 0 then NaN else if 0 < s then PosInf else NegInf)"

fun dmul :: "number \<Rightarrow> number \<Rightarrow> number" where
  "dmul (Fin a) (Fin b) = rnd (a * b)"
| "dmul NaN y = NaN"
| "dmul x NaN = NaN"
| "dmul x y = infOfSign (dsgn x * dsgn y)"

fun ddiv :: "number \<Rightarrow> number \<Rightarrow> number" where
  "ddiv (Fin a) (Fin b) = (if b = 0 then infOfSign (dsgn (Fin a)) else rnd (a / b))"
| "ddiv NaN y = NaN"
| "ddiv x NaN = NaN"
| "ddiv (Fin a) y = Fin 0"
| "ddiv x (Fin b) = (if b < 0 then dneg x else x)"
| "ddiv x y = NaN"

text \<open>
  The remainder operator \<^verbatim>\<open>%\<close> truncates towards zero, so the result has the sign of the
  dividend; it is always a double, so nothing is rounded.
\<close>

definition truncRat :: "rat \<Rightarrow> int" where
  "truncRat q = (if 0 \<le> q then \<lfloor>q\<rfloor> else \<lceil>q\<rceil>)"

fun drem :: "number \<Rightarrow> number \<Rightarrow> number" where
  "drem (Fin a) (Fin b) = (if b = 0 then NaN else Fin (a - b * of_int (truncRat (a / b))))"
| "drem (Fin a) PosInf = Fin a"
| "drem (Fin a) NegInf = Fin a"
| "drem x y = NaN"

fun dlt :: "number \<Rightarrow> number \<Rightarrow> bool" where
  "dlt (Fin a) (Fin b) = (a < b)"
| "dlt NaN y = False"
| "dlt x NaN = False"
| "dlt x NegInf = False"
| "dlt PosInf y = False"
| "dlt x y = True"

text \<open>\<^verbatim>\<open>Math.min\<close>, \<^verbatim>\<open>Math.max\<close> and \<^verbatim>\<open>Math.floor\<close>.\<close>

definition Math_min :: "number \<Rightarrow> number \<Rightarrow> number" where
  "Math_min x y = (if x = NaN \<or> y = NaN then NaN else if dlt y x then y else x)"

definition Math_max :: "number \<Rightarrow> number \<Rightarrow> number" where
  "Math_max x y = (if x = NaN \<or> y = NaN then NaN else if dlt x y then y else x)"

fun Math_floor :: "number \<Rightarrow> number" where
  "Math_floor (Fin a) = Fin (of_int \<lfloor>a\<rfloor>)"
| "Math_floor x = x"

subsection \<open>Characters and strings\<close>

definition isDigit :: "char \<Rightarrow> bool" where
  "isDigit c = (c \<in> set ''0123456789'')"

definition digitVal :: "char \<Rightarrow> nat" where
  "digitVal c = length (takeWhile (\<lambda>d. d \<noteq> c) ''0123456789abcdef'')"

definition digitsVal :: "nat \<Rightarrow> string \<Rightarrow> int" where
  "digitsVal radix ds = foldl (\<lambda>a c. int radix * a + int (digitVal c)) 0 ds"

definition digitChar :: "int \<Rightarrow> char" where
  "digitChar d = ''0123456789'' ! nat (d mod 10)"

text \<open>The decimal digits of a natural number, as \<^verbatim>\<open>toString\<close> prints an integer.\<close>

function natDigits :: "int \<Rightarrow> string" where
  "natDigits n = (if n < 10 then [digitChar n] else natDigits (n div 10) @ [digitChar (n mod 10)])"
  by pat_completeness auto
termination
  by (relation "measure nat") auto

declare natDigits.simps [simp del]

definition padStart :: "nat \<Rightarrow> char \<Rightarrow> string \<Rightarrow> string" where
  "padStart n c s = replicate (n - length s) c @ s"

definition lowerChar :: "char \<Rightarrow> char" where
  "lowerChar c = (case map_of (zip ''ABCDEFGHIJKLMNOPQRSTUVWXYZ'' ''abcdefghijklmnopqrstuvwxyz'') c
                  of None \<Rightarrow> c | Some l \<Rightarrow> l)"

definition toLowerCase :: "string \<Rightarrow> string" where
  "toLowerCase s = map lowerChar s"

primrec startsWith :: "string \<Rightarrow> string \<Rightarrow> bool" where
  "startsWith s [] = True"
| "startsWith s (c # cs) = (case s of [] \<Rightarrow> False | d # ds \<Rightarrow> c = d \<and> startsWith ds cs)"

text \<open>\<^verbatim>\<open>s.includes(sub)\<close>: \<open>sub\<close> occurs in \<open>s\<close> as a contiguous substring.\<close>

primrec includesStr :: "string \<Rightarrow> string \<Rightarrow> bool" where
  "includesStr [] sub = (sub = [])"
| "includesStr (c # cs) sub = (startsWith (c # cs) sub \<or> includesStr cs sub)"

text \<open>\<^verbatim>\<open>s.split(sep)\<close> for a separator of one character; the result is never empty.\<close>

primrec splitStr :: "char \<Rightarrow> string \<Rightarrow> string list" where
  "splitStr sep [] = [[]]"
| "splitStr sep (c # cs) =
     (if c = sep then [] # splitStr sep cs
      else (case splitStr sep cs of [] \<Rightarrow> [[c]] | p # ps \<Rightarrow> (c # p) # ps))"

subsection \<open>Numbers to strings\<close>

text \<open>
  \<^verbatim>\<open>Number.prototype.toString\<close> prints the shortest decimal that reads back as the same
  double. \<open>ilog10 x\<close> is the decimal exponent of a positive rational:
  \<open>10^(n-1) \<le> x < 10^n\<close> for \<open>n = ilog10 x + 1\<close>.
\<close>

definition ilog10 :: "rat \<Rightarrow> int" where
  "ilog10 x = (if 1 \<le> x then int (length (natDigits \<lfloor>x\<rfloor>)) - 1
               else - int (if \<lceil>1 / x\<rceil> \<le> 1 then 0
                           else length (natDigits (\<lceil>1 / x\<rceil> - 1))))"

text \<open>
  \<open>shortest x n k fuel\<close> looks for the least number of digits \<open>k\<close> and the digits \<open>s\<close>
  with \<open>s * 10^(n-k)\<close> reading back as \<open>x\<close>; of two candidates the one nearer to \<open>x\<close>
  wins, the even one at a tie. Seventeen digits always suffice.
\<close>

fun shortest :: "rat \<Rightarrow> int \<Rightarrow> nat \<Rightarrow> nat \<Rightarrow> int \<times> nat \<times> int" where
  "shortest x n k fuel =
     (let u = 10 powi (n - int k); lo = \<lfloor>x / u\<rfloor>; hi = lo + 1;
          okLo = (rnd (of_int lo * u) = Fin x); okHi = (rnd (of_int hi * u) = Fin x);
          dLo = x - of_int lo * u; dHi = of_int hi * u - x;
          s = (if okLo \<and> okHi then (if dLo < dHi then lo else if dHi < dLo then hi
                                       else if even lo then lo else hi)
               else if okLo then lo else hi)
      in if okLo \<or> okHi \<or> fuel = 0
         then (if s = 10 ^ k then (10 ^ (k - 1), k, n + 1) else (s, k, n))
         else shortest x n (Suc k) (fuel - 1))"

declare shortest.simps [simp del]

definition expSuffix :: "int \<Rightarrow> string" where
  "expSuffix e = CHR ''e'' # (if 0 \<le> e then CHR ''+'' else CHR ''-'') # natDigits \<bar>e\<bar>"

definition posToString :: "rat \<Rightarrow> string" where
  "posToString x =
     (case shortest x (ilog10 x + 1) 1 16 of (s, k, n) \<Rightarrow>
        let ds = natDigits s in
        if int k \<le> n \<and> n \<le> 21 then ds @ replicate (nat (n - int k)) CHR ''0''
        else if 0 < n \<and> n \<le> 21 then take (nat n) ds @ ''.'' @ drop (nat n) ds
        else if - 6 < n \<and> n \<le> 0 then ''0.'' @ replicate (nat (- n)) CHR ''0'' @ ds
        else if k = 1 then ds @ expSuffix (n - 1)
        else take 1 ds @ ''.'' @ drop 1 ds @ expSuffix (n - 1))"

fun numToString :: "number \<Rightarrow> string" where
  "numToString NaN = ''NaN''"
| "numToString PosInf = ''Infinity''"
| "numToString NegInf = ''-Infinity''"
| "numToString (Fin x) =
     (if x = 0 then ''0'' else if x < 0 then ''-'' @ posToString (- x) else posToString x)"

text \<open>
  \<^verbatim>\<open>x.toFixed(2)\<close>: the integer \<open>n\<close> with \<open>n / 100\<close> nearest to the exact value of
  \<open>x\<close> (the larger one at a tie), printed with the point before its last two digits;
  numbers of \<open>10^21\<close> and more, and the values that are not finite, print as
  \<^verbatim>\<open>toString\<close> prints them.
\<close>

definition toFixed2 :: "number \<Rightarrow> string" where
  "toFixed2 v =
     (case v of
        Fin x \<Rightarrow>
          (let a = \<bar>x\<bar>; sg = (if x < 0 then ''-'' else []) in
           if 10 ^ 21 \<le> a then sg @ posToString a
           else let m = padStart 3 CHR ''0'' (natDigits \<lfloor>a * 100 + 1 / 2\<rfloor>)
                in sg @ take (length m - 2) m @ ''.'' @ drop (length m - 2) m)
      | _ \<Rightarrow> numToString v)"

subsection \<open>Strings to numbers\<close>

definition isWhiteSpace :: "char \<Rightarrow> bool" where
  "isWhiteSpace c = (c \<in> set [CHR 0x09, CHR 0x0A, CHR 0x0B, CHR 0x0C, CHR 0x0D, CHR '' ''])"

definition trim :: "string \<Rightarrow> string" where
  "trim s = rev (dropWhile isWhiteSpace (rev (dropWhile isWhiteSpace s)))"

text \<open>An optional sign in front of a literal: the sign and the rest.\<close>

definition signOf :: "string \<Rightarrow> rat \<times> string" where
  "signOf s = (case s of
       c # cs \<Rightarrow> if c = CHR ''-'' then (- 1, cs) else if c = CHR ''+'' then (1, cs) else (1, s)
     | [] \<Rightarrow> (1, s))"

text \<open>The exponent part of a decimal literal, taken only when a digit follows.\<close>

definition exponentPart :: "string \<Rightarrow> int \<times> string" where
  "exponentPart s = (case s of
       c # cs \<Rightarrow>
         if c = CHR ''e'' \<or> c = CHR ''E'' then
           (case signOf cs of (sg, r) \<Rightarrow>
              let ds = takeWhile isDigit r in
              if ds = [] then (0, s)
              else ((if sg < 0 then - 1 else 1) * digitsVal 10 ds, dropWhile isDigit r))
         else (0, s)
     | [] \<Rightarrow> (0, s))"

text \<open>
  The longest prefix that is an unsigned decimal literal (digits, an optional fraction,
  an optional exponent), with its exact value and the text after it.
\<close>

definition decimalPrefix :: "string \<Rightarrow> (rat \<times> string) option" where
  "decimalPrefix s =
     (let ip = takeWhile isDigit s; r1 = dropWhile isDigit s in
      case (case r1 of
              c # r2 \<Rightarrow>
                if c = CHR ''.'' then
                  (let fp = takeWhile isDigit r2 in
                   if ip = [] \<and> fp = [] then None
                   else Some (of_int (digitsVal 10 (ip @ fp)) / 10 ^ length fp,
                              dropWhile isDigit r2))
                else if ip = [] then None else Some (of_int (digitsVal 10 ip), r1)
            | [] \<Rightarrow> if ip = [] then None else Some (of_int (digitsVal 10 ip), r1))
      of None \<Rightarrow> None
       | Some (m, r) \<Rightarrow> (case exponentPart r of (ex, r') \<Rightarrow> Some (m * 10 powi ex, r')))"

definition parseFloat :: "string \<Rightarrow> number" where
  "parseFloat s =
     (case signOf (dropWhile isWhiteSpace s) of (sg, u) \<Rightarrow>
        if startsWith u ''Infinity'' then (if sg < 0 then NegInf else PosInf)
        else (case decimalPrefix u of None \<Rightarrow> NaN | Some (v, r) \<Rightarrow> rnd (sg * v)))"

text \<open>\<^verbatim>\<open>parseInt(s)\<close> with no radix: decimal, or hexadecimal after \<^verbatim>\<open>0x\<close>.\<close>

definition parseInt :: "string \<Rightarrow> number" where
  "parseInt s =
     (case signOf (dropWhile isWhiteSpace s) of (sg, u) \<Rightarrow>
        let hex = (startsWith u ''0x'' \<or> startsWith u ''0X'');
            radix = (if hex then 16 else 10 :: nat);
            body = (if hex then drop 2 u else u);
            ds = takeWhile (\<lambda>c. digitVal (lowerChar c) < radix) body
        in if ds = [] then NaN else rnd (sg * of_int (digitsVal radix (map lowerChar ds))))"

text \<open>
  \<^verbatim>\<open>Number(s)\<close>: white space is trimmed, the empty string is zero, and the whole rest has
  to be one numeric literal.
\<close>

definition radixLiteral :: "nat \<Rightarrow> string \<Rightarrow> number" where
  "radixLiteral radix ds =
     (if ds \<noteq> [] \<and> (\<forall>c \<in> set ds. digitVal (lowerChar c) < radix)
      then rnd (of_int (digitsVal radix (map lowerChar ds))) else NaN)"

definition Number :: "string \<Rightarrow> number" where
  "Number s =
     (let t = trim s in
      if t = [] then Fin 0
      else if startsWith t ''0x'' \<or> startsWith t ''0X'' then radixLiteral 16 (drop 2 t)
      else if startsWith t ''0o'' \<or> startsWith t ''0O'' then radixLiteral 8 (drop 2 t)
      else if startsWith t ''0b'' \<or> startsWith t ''0B'' then radixLiteral 2 (drop 2 t)
      else (case signOf t of (sg, u) \<Rightarrow>
              if u = ''Infinity'' then (if sg < 0 then NegInf else PosInf)
              else (case decimalPrefix u of
                      Some (v, []) \<Rightarrow> rnd (sg * v)
                    | _ \<Rightarrow> NaN)))"

subsection \<open>Dates\<close>

text \<open>
  A valid \<^verbatim>\<open>Date\<close> object holds an integer time value: the milliseconds since
  1970-01-01T00:00Z, at most \<open>8.64 * 10^15\<close> in magnitude. An invalid one holds NaN and is
  \<open>None\<close> here.

  \<^verbatim>\<open>getTime\<close> and \<^verbatim>\<open>toISOString\<close> read the time value as it is, in UTC. \<^verbatim>\<open>getDay\<close>,
  \<^verbatim>\<open>getDate\<close> and \<^verbatim>\<open>setDate\<close> work in the local time of the host. ECMAScript defines
  \<open>LocalTime(t) = t + LocalTZA(t, true)\<close> and \<open>UTC(t) = t - LocalTZA(t, false)\<close>, where
  \<open>LocalTZA\<close> is the offset of the host's time zone in milliseconds, at the UTC instant
  \<open>t\<close> when the flag is true and at the local time \<open>t\<close> when it is false. Which zone that
  is, the host says; it also says how \<^verbatim>\<open>new Date(s)\<close> reads a text that is not in the Date
  Time String Format of the standard. Both are parameters of the model.
\<close>

record host =
  LocalTZA :: "int \<Rightarrow> bool \<Rightarrow> int"
  parseOther :: "string \<Rightarrow> int option"

definition msPerDay :: int where
  "msPerDay = 86400000"

definition maxTime :: int where
  "maxTime = 8640000000000000"

definition validTime :: "int \<Rightarrow> bool" where
  "validTime t = (- maxTime \<le> t \<and> t \<le> maxTime)"

definition TimeClip :: "int \<Rightarrow> int option" where
  "TimeClip t = (if validTime t then Some t else None)"

definition getTime :: "int \<Rightarrow> number" where
  "getTime t = Fin (of_int t)"

definition LocalTime :: "host \<Rightarrow> int \<Rightarrow> int" where
  "LocalTime h t = t + LocalTZA h t True"

definition UTC :: "host \<Rightarrow> int \<Rightarrow> int" where
  "UTC h t = t - LocalTZA h t False"

text \<open>The day number of a time value, the time within its day, and the way back.\<close>

definition Day :: "int \<Rightarrow> int" where
  "Day t = t div msPerDay"

definition TimeWithinDay :: "int \<Rightarrow> int" where
  "TimeWithinDay t = t mod msPerDay"

definition MakeDate :: "int \<Rightarrow> int \<Rightarrow> int" where
  "MakeDate day time = day * msPerDay + time"

text \<open>
  \<^verbatim>\<open>getDay\<close>: the day of the week of the local time, 0 for Sunday; 1970-01-01 was a
  Thursday.
\<close>

definition getDay :: "host \<Rightarrow> int \<Rightarrow> int" where
  "getDay h t = (Day (LocalTime h t) + 4) mod 7"

text \<open>
  The number of days from 1970-01-01 to a day of the proleptic Gregorian calendar, and
  back. The count goes on linearly past the end of a month, as \<open>MakeDay\<close> does.
\<close>

definition daysFromCivil :: "int \<Rightarrow> int \<Rightarrow> int \<Rightarrow> int" where
  "daysFromCivil y m d =
     (let y' = (if m \<le> 2 then y - 1 else y);
          era = y' div 400; yoe = y' mod 400;
          doy = (153 * (if 2 < m then m - 3 else m + 9) + 2) div 5 + d - 1;
          doe = yoe * 365 + yoe div 4 - yoe div 100 + doy
      in era * 146097 + doe - 719468)"

definition civilFromDays :: "int \<Rightarrow> int \<times> int \<times> int" where
  "civilFromDays z0 =
     (let z = z0 + 719468;
          era = z div 146097; doe = z mod 146097;
          yoe = (doe - doe div 1460 + doe div 36524 - doe div 146096) div 365;
          doy = doe - (365 * yoe + yoe div 4 - yoe div 100);
          mp = (5 * doy + 2) div 153;
          d = doy - (153 * mp + 2) div 5 + 1;
          m = (if mp < 10 then mp + 3 else mp - 9);
          y = yoe + era * 400
      in (if m \<le> 2 then y + 1 else y, m, d))"

text \<open>
  The day number of the first day of the month that a time value lies in. With it,
  \<open>DateFromTime\<close> is the day of the month, counted from 1, and \<open>MakeDay\<close> for the year and
  the month of a time value and a day of the month \<open>dt\<close> is the day \<open>dt - 1\<close> days after
  the first of that month, also when \<open>dt\<close> is past its end.
\<close>

definition monthStart :: "int \<Rightarrow> int" where
  "monthStart t = (case civilFromDays (Day t) of (y, m, d) \<Rightarrow> daysFromCivil y m 1)"

definition DateFromTime :: "int \<Rightarrow> int" where
  "DateFromTime t = Day t - monthStart t + 1"

definition MakeDayInMonth :: "int \<Rightarrow> int \<Rightarrow> int" where
  "MakeDayInMonth t dt = monthStart t + dt - 1"

text \<open>
  \<^verbatim>\<open>d.getDate()\<close> is the day of the month of the local time. \<^verbatim>\<open>d.setDate(dt)\<close> takes the
  local time, replaces its day of the month, and stores the UTC time of the result,
  clipped: beyond the largest time value the date becomes invalid.
\<close>

definition getDate :: "host \<Rightarrow> int \<Rightarrow> int" where
  "getDate h t = DateFromTime (LocalTime h t)"

definition setDate :: "host \<Rightarrow> int \<Rightarrow> int \<Rightarrow> int option" where
  "setDate h t dt =
     (let l = LocalTime h t
      in TimeClip (UTC h (MakeDate (MakeDayInMonth l dt) (TimeWithinDay l))))"

text \<open>
  \<^verbatim>\<open>new Date(s)\<close> first reads \<open>s\<close> in the Date Time String Format:
  \<^verbatim>\<open>YYYY\<close>, \<^verbatim>\<open>YYYY-MM\<close> or \<^verbatim>\<open>YYYY-MM-DD\<close>, the year also as a sign and six digits; then,
  for a date with a time, \<^verbatim>\<open>T\<close> and \<^verbatim>\<open>HH:mm\<close>, \<^verbatim>\<open>HH:mm:ss\<close> or \<^verbatim>\<open>HH:mm:ss.sss\<close>, and
  after the time \<^verbatim>\<open>Z\<close> or an offset \<^verbatim>\<open>+HH:mm\<close> or \<^verbatim>\<open>-HH:mm\<close>. The month is 01 to 12
  and the day 01 to 31 whatever the month, so \<^verbatim>\<open>2025-02-30\<close> is the second of March. A
  date without a time is midnight UTC of its day; a date with a time and without an offset
  is a local time of the host.
\<close>

definition fixedNumber :: "nat \<Rightarrow> string \<Rightarrow> (int \<times> string) option" where
  "fixedNumber n s =
     (if n \<le> length s \<and> list_all isDigit (take n s)
      then Some (digitsVal 10 (take n s), drop n s) else None)"

definition skipSymbol :: "char \<Rightarrow> string \<Rightarrow> string option" where
  "skipSymbol c s = (case s of [] \<Rightarrow> None | x # r \<Rightarrow> if x = c then Some r else None)"

definition isoYear :: "string \<Rightarrow> (int \<times> string) option" where
  "isoYear s =
     (case skipSymbol CHR ''+'' s of
        Some r \<Rightarrow> fixedNumber 6 r
      | None \<Rightarrow>
          (case skipSymbol CHR ''-'' s of
             Some r \<Rightarrow>
               (case fixedNumber 6 r of
                  Some (y, r') \<Rightarrow> if y = 0 then None else Some (- y, r')
                | None \<Rightarrow> None)
           | None \<Rightarrow> fixedNumber 4 s))"

text \<open>The year, the month and the day of a date text, and what follows them.\<close>

definition isoDate :: "string \<Rightarrow> (int \<times> int \<times> int \<times> string) option" where
  "isoDate s =
     (case isoYear s of
        None \<Rightarrow> None
      | Some (y, r) \<Rightarrow>
          (case skipSymbol CHR ''-'' r of
             None \<Rightarrow> Some (y, 1, 1, r)
           | Some r1 \<Rightarrow>
               (case fixedNumber 2 r1 of
                  None \<Rightarrow> None
                | Some (m, r2) \<Rightarrow>
                    (case skipSymbol CHR ''-'' r2 of
                       None \<Rightarrow> Some (y, m, 1, r2)
                     | Some r3 \<Rightarrow>
                         (case fixedNumber 2 r3 of
                            None \<Rightarrow> None
                          | Some (d, r4) \<Rightarrow> Some (y, m, d, r4))))))"

text \<open>The hours, minutes, seconds and milliseconds of a time text, and what follows them.\<close>

definition isoTime :: "string \<Rightarrow> (int \<times> int \<times> int \<times> int \<times> string) option" where
  "isoTime s =
     (case fixedNumber 2 s of
        None \<Rightarrow> None
      | Some (hh, r) \<Rightarrow>
          (case skipSymbol CHR '':'' r of
             None \<Rightarrow> None
           | Some r1 \<Rightarrow>
               (case fixedNumber 2 r1 of
                  None \<Rightarrow> None
                | Some (mi, r2) \<Rightarrow>
                    (case skipSymbol CHR '':'' r2 of
                       None \<Rightarrow> Some (hh, mi, 0, 0, r2)
                     | Some r3 \<Rightarrow>
                         (case fixedNumber 2 r3 of
                            None \<Rightarrow> None
                          | Some (ss, r4) \<Rightarrow>
                              (case skipSymbol CHR ''.'' r4 of
                                 None \<Rightarrow> Some (hh, mi, ss, 0, r4)
                               | Some r5 \<Rightarrow>
                                   (case fixedNumber 3 r5 of
                                      None \<Rightarrow> None
                                    | Some (ms, r6) \<Rightarrow> Some (hh, mi, ss, ms, r6))))))))"

text \<open>
  The end of a date with a time: nothing, which is \<open>Some None\<close>, or \<^verbatim>\<open>Z\<close> or an offset,
  in milliseconds.
\<close>

definition isoOffset :: "string \<Rightarrow> int option option" where
  "isoOffset s =
     (if s = [] then Some None
      else if s = ''Z'' then Some (Some 0)
      else (case s of
              [] \<Rightarrow> None
            | c # r \<Rightarrow>
                if c = CHR ''+'' \<or> c = CHR ''-'' then
                  (case fixedNumber 2 r of
                     None \<Rightarrow> None
                   | Some (hh, r1) \<Rightarrow>
                       (case skipSymbol CHR '':'' r1 of
                          None \<Rightarrow> None
                        | Some r2 \<Rightarrow>
                            (case fixedNumber 2 r2 of
                               Some (mi, []) \<Rightarrow>
                                 if hh \<le> 23 \<and> mi \<le> 59
                                 then Some (Some ((if c = CHR ''-'' then - 1 else 1)
                                                  * (hh * 3600000 + mi * 60000)))
                                 else None
                             | _ \<Rightarrow> None)))
                else None))"

text \<open>
  The time value of a text in the Date Time String Format, before it is clipped; \<open>None\<close>
  for every other text.
\<close>

definition dateTimeString :: "host \<Rightarrow> string \<Rightarrow> int option" where
  "dateTimeString h s =
     (case isoDate s of
        None \<Rightarrow> None
      | Some (y, m, d, r) \<Rightarrow>
          if \<not> (1 \<le> m \<and> m \<le> 12 \<and> 1 \<le> d \<and> d \<le> 31) then None
          else if r = [] then Some (daysFromCivil y m d * msPerDay)
          else
            (case skipSymbol CHR ''T'' r of
               None \<Rightarrow> None
             | Some r1 \<Rightarrow>
                 (case isoTime r1 of
                    None \<Rightarrow> None
                  | Some (hh, mi, ss, ms, r2) \<Rightarrow>
                      if \<not> (mi \<le> 59 \<and> ss \<le> 59
                            \<and> (hh \<le> 23 \<or> (hh = 24 \<and> mi = 0 \<and> ss = 0 \<and> ms = 0)))
                      then None
                      else
                        (let t = daysFromCivil y m d * msPerDay
                                 + hh * 3600000 + mi * 60000 + ss * 1000 + ms
                         in case isoOffset r2 of
                              None \<Rightarrow> None
                            | Some None \<Rightarrow> Some (UTC h t)
                            | Some (Some off) \<Rightarrow> Some (t - off)))))"

text \<open>
  \<^verbatim>\<open>new Date(s)\<close>: the time value of a text in the format, and for every other text the
  one that the host reads from it, if any; the date is invalid beyond the largest time
  value.
\<close>

definition newDate :: "host \<Rightarrow> string \<Rightarrow> int option" where
  "newDate h s =
     (case dateTimeString h s of
        Some t \<Rightarrow> TimeClip t
      | None \<Rightarrow> (case parseOther h s of Some t \<Rightarrow> TimeClip t | None \<Rightarrow> None))"

text \<open>\<^verbatim>\<open>d.toISOString().split('T')[0]\<close> of a valid date: its UTC calendar day.\<close>

definition toISODate :: "int \<Rightarrow> string" where
  "toISODate t =
     (case civilFromDays (t div msPerDay) of (y, m, d) \<Rightarrow>
        (if 0 \<le> y \<and> y \<le> 9999 then padStart 4 CHR ''0'' (natDigits y)
         else (if y < 0 then CHR ''-'' else CHR ''+'') # padStart 6 CHR ''0'' (natDigits \<bar>y\<bar>))
        @ ''-'' @ padStart 2 CHR ''0'' (natDigits m)
        @ ''-'' @ padStart 2 CHR ''0'' (natDigits d))"

text \<open>
  Three hosts. The first keeps UTC. The second keeps the time of Europe/London in 2025:
  one hour ahead of UTC from 2025-03-30T01:00Z to 2025-10-26T01:00Z. The third keeps the
  time of America/New_York in 2025: five hours behind UTC, four hours behind from
  2025-03-09T07:00Z to 2025-11-02T06:00Z. A local time of the hour that a clock change
  skips or repeats is read with the offset before the change, as ECMAScript prescribes.
  None of the three reads a text outside the Date Time String Format; the examples below
  give them no such text.
\<close>

definition hostUTC :: host where
  "hostUTC = \<lparr>LocalTZA = (\<lambda>t isUTC. 0), parseOther = (\<lambda>s. None)\<rparr>"

definition europeLondon :: host where
  "europeLondon =
     \<lparr>LocalTZA = (\<lambda>t isUTC.
         if isUTC then (if 1743296400000 \<le> t \<and> t < 1761440400000 then 3600000 else 0)
         else (if 1743300000000 \<le> t \<and> t < 1761444000000 then 3600000 else 0)),
      parseOther = (\<lambda>s. None)\<rparr>"

definition americaNewYork :: host where
  "americaNewYork =
     \<lparr>LocalTZA = (\<lambda>t isUTC.
         if isUTC
         then (if 1741503600000 \<le> t \<and> t < 1762063200000 then - 14400000 else - 18000000)
         else (if 1741489200000 \<le> t \<and> t < 1762048800000 then - 14400000 else - 18000000)),
      parseOther = (\<lambda>s. None)\<rparr>"

section \<open>The schedule engine\<close>

text \<open>
  The fields of a food that the engine reads, and the entry it produces for one
  occurrence. A field that the schema allows to be \<^verbatim>\<open>null\<close> is an option.
\<close>

record food =
  food_id :: int
  food_frequency :: string
  food_startingAmount :: "string option"
  food_targetAmount :: "string option"
  food_progressionType :: "string option"
  food_progressionDuration :: "number option"
  food_startTime :: "string option"
  food_timeProgression :: "string option"
  food_timeProgressionAmount :: "number option"

record entry =
  entry_foodId :: int
  entry_date :: string
  entry_calculatedAmount :: "string option"
  entry_calculatedTime :: "string option"
  entry_occurrenceNumber :: nat

text \<open>
  What \<^verbatim>\<open>!x\<close> tests: a string is truthy unless it is \<^verbatim>\<open>null\<close> or empty, a number unless
  it is \<^verbatim>\<open>null\<close>, zero or NaN.
\<close>

definition truthyStr :: "string option \<Rightarrow> bool" where
  "truthyStr x = (case x of None \<Rightarrow> False | Some s \<Rightarrow> s \<noteq> [])"

definition truthyNum :: "number option \<Rightarrow> bool" where
  "truthyNum x = (case x of None \<Rightarrow> False | Some n \<Rightarrow> n \<noteq> Fin 0 \<and> n \<noteq> NaN)"

subsection \<open>The amount of an occurrence\<close>

definition isNumChar :: "char \<Rightarrow> bool" where
  "isNumChar c = (isDigit c \<or> c = CHR ''.'')"

text \<open>\<^verbatim>\<open>amount.match(/^([\d.]+)/)\<close>: the group, when the text starts with a digit or a point.\<close>

definition matchNumPrefix :: "string \<Rightarrow> string option" where
  "matchNumPrefix amount =
     (let m = takeWhile isNumChar amount in if m = [] then None else Some m)"

definition parseAmount :: "string \<Rightarrow> number" where
  "parseAmount amount = (case matchNumPrefix amount of Some m \<Rightarrow> parseFloat m | None \<Rightarrow> Fin 1)"

text \<open>
  \<^verbatim>\<open>s.replace(/^[\d.]+/, r)\<close>. The replacement is the output of \<^verbatim>\<open>toFixed\<close>, which has no
  \<^verbatim>\<open>$\<close> in it, so it is inserted as it is.
\<close>

definition replaceNumPrefix :: "string \<Rightarrow> string \<Rightarrow> string" where
  "replaceNumPrefix s r =
     (case matchNumPrefix s of Some m \<Rightarrow> r @ drop (length m) s | None \<Rightarrow> s)"

definition calculateProgressiveAmount ::
  "string option \<Rightarrow> string option \<Rightarrow> string option \<Rightarrow> number option \<Rightarrow> number \<Rightarrow> number
     \<Rightarrow> string option" where
  "calculateProgressiveAmount startingAmount targetAmount progressionType progressionDuration
       occurrenceNumber totalOccurrences =
     (if \<not> truthyStr startingAmount \<or> \<not> truthyStr targetAmount \<or> \<not> truthyStr progressionType
         \<or> \<not> truthyNum progressionDuration
      then (if truthyStr startingAmount then startingAmount else None)
      else if progressionType = Some ''static'' then startingAmount
      else
        (case (startingAmount, targetAmount) of
           (Some sa, Some ta) \<Rightarrow>
             (let startValue = parseAmount sa;
                  targetValue = parseAmount ta;
                  progress = Math_min (ddiv occurrenceNumber
                                         (Math_max (dsub totalOccurrences (Fin 1)) (Fin 1)))
                                      (Fin 1);
                  currentValue =
                    (if progressionType = Some ''buildup'' then
                       dadd startValue (dmul (dsub targetValue startValue) progress)
                     else if progressionType = Some ''reduction'' then
                       dsub startValue (dmul (dsub startValue targetValue) progress)
                     else if progressionType = Some ''custom'' then
                       (if dlt progress (rnd (33 / 100)) then
                          dadd startValue
                            (dmul (dmul (dsub targetValue startValue) (Fin (1 / 2)))
                                  (ddiv progress (rnd (33 / 100))))
                        else if dlt progress (rnd (67 / 100)) then
                          dadd startValue (dmul (dsub targetValue startValue) (Fin (1 / 2)))
                        else
                          (let finalProgress =
                                 ddiv (dsub progress (rnd (67 / 100))) (rnd (33 / 100))
                           in dadd startValue
                                (dmul (dsub targetValue startValue)
                                      (dadd (Fin (1 / 2)) (dmul (Fin (1 / 2)) finalProgress)))))
                     else startValue)
              in Some (replaceNumPrefix sa (toFixed2 currentValue)))
         | _ \<Rightarrow> startingAmount))"

subsection \<open>The time of an occurrence\<close>

text \<open>
  \<^verbatim>\<open>const [hours, minutes] = startTime.split(':').map(Number)\<close>: the first two parts;
  a missing second part is \<^verbatim>\<open>undefined\<close>, which is NaN in the sum.
\<close>

definition calculateProgressiveTime ::
  "string option \<Rightarrow> string option \<Rightarrow> number option \<Rightarrow> number \<Rightarrow> string option" where
  "calculateProgressiveTime startTime timeProgression timeProgressionAmount occurrenceNumber =
     (if \<not> truthyStr startTime \<or> \<not> truthyStr timeProgression \<or> \<not> truthyNum timeProgressionAmount
         \<or> timeProgression = Some ''static''
      then startTime
      else
        (case (startTime, timeProgressionAmount) of
           (Some st, Some amount) \<Rightarrow>
             (let parts = map Number (splitStr CHR '':'' st);
                  hours = (case parts of h # _ \<Rightarrow> h | [] \<Rightarrow> NaN);
                  minutes = (case parts of _ # m # _ \<Rightarrow> m | _ \<Rightarrow> NaN);
                  totalMinutes0 = dadd (dmul hours (Fin 60)) minutes;
                  totalMinutes1 =
                    (if timeProgression = Some ''later'' then
                       dadd totalMinutes0 (dmul amount occurrenceNumber)
                     else if timeProgression = Some ''earlier'' then
                       dsub totalMinutes0 (dmul amount occurrenceNumber)
                     else totalMinutes0);
                  totalMinutes =
                    drem (dadd (drem totalMinutes1 (Fin (24 * 60))) (Fin (24 * 60))) (Fin (24 * 60));
                  newHours = Math_floor (ddiv totalMinutes (Fin 60));
                  newMinutes = drem totalMinutes (Fin 60)
              in Some (padStart 2 CHR ''0'' (numToString newHours) @ '':''
                       @ padStart 2 CHR ''0'' (numToString newMinutes)))
         | _ \<Rightarrow> startTime))"

subsection \<open>Generating the entries\<close>

text \<open>\<^verbatim>\<open>frequency.match(/(\d+)/)\<close>: the first run of digits, when there is one.\<close>

definition matchDigits :: "string \<Rightarrow> string option" where
  "matchDigits frequency =
     (let r = dropWhile (\<lambda>c. \<not> isDigit c) frequency
      in if r = [] then None else Some (takeWhile isDigit r))"

text \<open>
  The source decides twice whether a day is included, with the same text: in the first
  pass for \<^verbatim>\<open>tempDate\<close>, in the second for \<^verbatim>\<open>currentDate\<close>.
\<close>

definition shouldInclude1 :: "host \<Rightarrow> string \<Rightarrow> int \<Rightarrow> int \<Rightarrow> bool" where
  "shouldInclude1 h frequency startDate tempDate =
     (if frequency = ''daily'' \<or> frequency = ''every day'' then True
      else if frequency = ''weekly'' \<or> frequency = ''once a week'' then
        getDay h tempDate = getDay h startDate
      else if includesStr frequency ''times per week'' \<or> includesStr frequency ''x week''
              \<or> includesStr frequency ''times a week'' then
        (let timesMatch = matchDigits frequency;
             times = (case timesMatch of Some m \<Rightarrow> parseInt m | None \<Rightarrow> Fin 3)
         in if times = Fin 7 then True
            else if times = Fin 6 then getDay h tempDate \<noteq> 0
            else if times = Fin 5 then getDay h tempDate \<in> set [1, 2, 3, 4, 5]
            else if times = Fin 4 then getDay h tempDate \<in> set [1, 2, 4, 5]
            else if times = Fin 3 then getDay h tempDate \<in> set [1, 3, 5]
            else if times = Fin 2 then getDay h tempDate \<in> set [2, 5]
            else if times = Fin 1 then getDay h tempDate = getDay h startDate
            else False)
      else if includesStr frequency ''every 2 days'' \<or> includesStr frequency ''every other day''
      then
        (let daysDiff = Math_floor (ddiv (dsub (getTime tempDate) (getTime startDate))
                                         (Fin (1000 * 60 * 60 * 24)))
         in drem daysDiff (Fin 2) = Fin 0)
      else True)"

definition shouldInclude2 :: "host \<Rightarrow> string \<Rightarrow> int \<Rightarrow> int \<Rightarrow> bool" where
  "shouldInclude2 h frequency startDate currentDate =
     (if frequency = ''daily'' \<or> frequency = ''every day'' then True
      else if frequency = ''weekly'' \<or> frequency = ''once a week'' then
        getDay h currentDate = getDay h startDate
      else if includesStr frequency ''times per week'' \<or> includesStr frequency ''x week''
              \<or> includesStr frequency ''times a week'' then
        (let timesMatch = matchDigits frequency;
             times = (case timesMatch of Some m \<Rightarrow> parseInt m | None \<Rightarrow> Fin 3)
         in if times = Fin 7 then True
            else if times = Fin 6 then getDay h currentDate \<noteq> 0
            else if times = Fin 5 then getDay h currentDate \<in> set [1, 2, 3, 4, 5]
            else if times = Fin 4 then getDay h currentDate \<in> set [1, 2, 4, 5]
            else if times = Fin 3 then getDay h currentDate \<in> set [1, 3, 5]
            else if times = Fin 2 then getDay h currentDate \<in> set [2, 5]
            else if times = Fin 1 then getDay h currentDate = getDay h startDate
            else False)
      else if includesStr frequency ''every 2 days'' \<or> includesStr frequency ''every other day''
      then
        (let daysDiff = Math_floor (ddiv (dsub (getTime currentDate) (getTime startDate))
                                         (Fin (1000 * 60 * 60 * 24)))
         in drem daysDiff (Fin 2) = Fin 0)
      else True)"

text \<open>
  The first pass: the loop over \<^verbatim>\<open>tempDate\<close> that collects \<^verbatim>\<open>tempEntries\<close>, whose length
  is \<^verbatim>\<open>totalOccurrences\<close>. The state of the loop is the time value of \<^verbatim>\<open>tempDate\<close>, \<open>None\<close>
  once \<^verbatim>\<open>setDate\<close> has made the date invalid; \<^verbatim>\<open>tempDate <= endDate\<close> is false then. The
  loop ends when \<^verbatim>\<open>setDate\<close> has moved the date past the end date; for a host where it
  never does, the loop runs forever and the result of the function is \<open>None\<close>.
\<close>

partial_function (option) firstPass ::
  "host \<Rightarrow> string \<Rightarrow> int \<Rightarrow> int \<Rightarrow> int option \<Rightarrow> string list \<Rightarrow> string list option" where
  "firstPass h frequency startDate endDate tempDate tempEntries =
     (case tempDate of
        None \<Rightarrow> Some tempEntries
      | Some t \<Rightarrow>
          if t \<le> endDate then
            firstPass h frequency startDate endDate (setDate h t (getDate h t + 1))
              (if shouldInclude1 h frequency startDate t
               then tempEntries @ [toISODate t] else tempEntries)
          else Some tempEntries)"

declare firstPass.simps [code]

text \<open>
  The second pass: the loop over \<^verbatim>\<open>currentDate\<close>, with the counter
  \<^verbatim>\<open>occurrenceNumber\<close> and the array \<^verbatim>\<open>entries\<close> as its state. The counter stays far
  below \<open>2^53\<close>, where counting in doubles is exact.
\<close>

partial_function (option) secondPass ::
  "host \<Rightarrow> food \<Rightarrow> string \<Rightarrow> int \<Rightarrow> int \<Rightarrow> nat \<Rightarrow> int option \<Rightarrow> nat \<Rightarrow> entry list
     \<Rightarrow> entry list option" where
  "secondPass h food frequency startDate endDate totalOccurrences currentDate occurrenceNumber
       entries =
     (case currentDate of
        None \<Rightarrow> Some entries
      | Some t \<Rightarrow>
          if t \<le> endDate then
            (if shouldInclude2 h frequency startDate t then
               (let calculatedAmount = calculateProgressiveAmount
                      (food_startingAmount food) (food_targetAmount food)
                      (food_progressionType food) (food_progressionDuration food)
                      (Fin (of_nat occurrenceNumber)) (Fin (of_nat totalOccurrences));
                    calculatedTime = calculateProgressiveTime
                      (food_startTime food) (food_timeProgression food)
                      (food_timeProgressionAmount food) (Fin (of_nat occurrenceNumber))
                in secondPass h food frequency startDate endDate totalOccurrences
                     (setDate h t (getDate h t + 1)) (occurrenceNumber + 1)
                     (entries @ [\<lparr>entry_foodId = food_id food,
                                  entry_date = toISODate t,
                                  entry_calculatedAmount = calculatedAmount,
                                  entry_calculatedTime = calculatedTime,
                                  entry_occurrenceNumber = occurrenceNumber\<rparr>]))
             else secondPass h food frequency startDate endDate totalOccurrences
                    (setDate h t (getDate h t + 1)) occurrenceNumber entries)
          else Some entries)"

declare secondPass.simps [code]

text \<open>
  \<^verbatim>\<open>generateScheduleEntries\<close> after its two \<^verbatim>\<open>new Date\<close> calls. A comparison with an invalid
  date is false, so neither loop runs when one of the dates is invalid. Both loops start
  from a copy of the start date. The result is \<open>None\<close> when a loop does not end.
\<close>

definition generateScheduleEntriesAt ::
  "host \<Rightarrow> food \<Rightarrow> int option \<Rightarrow> int option \<Rightarrow> entry list option" where
  "generateScheduleEntriesAt h food startDate endDate =
     (case (startDate, endDate) of
        (Some s, Some e) \<Rightarrow>
          (let frequency = toLowerCase (food_frequency food)
           in case firstPass h frequency s e (Some s) [] of
                None \<Rightarrow> None
              | Some tempEntries \<Rightarrow>
                  (let totalOccurrences = length tempEntries
                   in secondPass h food frequency s e totalOccurrences (Some s) 0 []))
      | _ \<Rightarrow> Some [])"

definition generateScheduleEntries ::
  "host \<Rightarrow> food \<Rightarrow> string \<Rightarrow> string \<Rightarrow> entry list option" where
  "generateScheduleEntries h food startDateStr endDateStr =
     generateScheduleEntriesAt h food (newDate h startDateStr) (newDate h endDateStr)"

section \<open>The notions of the specification\<close>

text \<open>
  The specification describes the engine as an expander, which yields the dates of the
  occurrences, and a calculator, which annotates them. The definitions of this section
  state its notions; the theorems relate the functions of the source to them.

  In every time zone the same time of day on the next calendar day is a later instant: 24
  hours later, and 23 or 25 where the clocks change by an hour in between. A host advances
  when that instant is always at least one hour later.
\<close>

definition hostAdvances :: "host \<Rightarrow> bool" where
  "hostAdvances h = (\<forall>t. t + 3600000 \<le> UTC h (LocalTime h t + msPerDay))"

text \<open>
  The instants a loop visits on a host that advances: the start date and the instants that
  \<^verbatim>\<open>setDate\<close> reaches from it, up to the end date and as long as the date is valid.
\<close>

function datesFrom :: "host \<Rightarrow> int \<Rightarrow> int \<Rightarrow> int list" where
  "datesFrom h endDate t =
     (if t \<le> endDate then
        t # (case setDate h t (getDate h t + 1) of
               None \<Rightarrow> []
             | Some t' \<Rightarrow> if t < t' then datesFrom h endDate t' else [])
      else [])"
  by pat_completeness auto
termination
  by (relation "measure (\<lambda>(h, endDate, t). nat (endDate - t + 1))") auto

declare datesFrom.simps [simp del]

text \<open>The instants of the occurrences: the visited ones that the second pass includes.\<close>

definition occurrenceDates :: "host \<Rightarrow> string \<Rightarrow> int \<Rightarrow> int \<Rightarrow> int list" where
  "occurrenceDates h frequency startDate endDate =
     filter (shouldInclude2 h frequency startDate) (datesFrom h endDate startDate)"

text \<open>The three texts that make a frequency one of the times-per-week family.\<close>

definition timesPerWeekFamily :: "string \<Rightarrow> bool" where
  "timesPerWeekFamily frequency =
     (includesStr frequency ''times per week'' \<or> includesStr frequency ''x week''
      \<or> includesStr frequency ''times a week'')"

text \<open>The integer extracted from a frequency: its first run of digits, 3 without one.\<close>

definition extractedTimes :: "string \<Rightarrow> int" where
  "extractedTimes frequency =
     (case matchDigits frequency of Some m \<Rightarrow> digitsVal 10 m | None \<Rightarrow> 3)"

text \<open>
  The table of the specification: the weekdays (0 for Sunday) on which a food taken
  \<open>N\<close> times per week occurs; the table has the rows 1 to 7 only.
\<close>

definition weekdaySet :: "int \<Rightarrow> int \<Rightarrow> int list" where
  "weekdaySet N startDay =
     (if N = 7 then [0, 1, 2, 3, 4, 5, 6]
      else if N = 6 then [1, 2, 3, 4, 5, 6]
      else if N = 5 then [1, 2, 3, 4, 5]
      else if N = 4 then [1, 2, 4, 5]
      else if N = 3 then [1, 3, 5]
      else if N = 2 then [2, 5]
      else if N = 1 then [startDay]
      else [])"

text \<open>
  The normalized progress of occurrence \<open>i\<close> of \<open>n\<close>:
  \<open>p = min (i / max (n - 1, 1), 1)\<close>, in the arithmetic of doubles.
\<close>

definition progressAt :: "number \<Rightarrow> number \<Rightarrow> number" where
  "progressAt i n = Math_min (ddiv i (Math_max (dsub n (Fin 1)) (Fin 1))) (Fin 1)"

text \<open>A clock time, given in minutes after midnight, as zero-padded \<^verbatim>\<open>HH:MM\<close>.\<close>

definition clockText :: "int \<Rightarrow> string" where
  "clockText w = padStart 2 CHR ''0'' (natDigits (w div 60)) @ '':''
                 @ padStart 2 CHR ''0'' (natDigits (w mod 60))"

text \<open>
  What the source tests with \<^verbatim>\<open>!x\<close> is how it decides that a field is absent.
\<close>

definition absentStr :: "string option \<Rightarrow> bool" where
  "absentStr x = (\<not> truthyStr x)"

definition absentNum :: "number option \<Rightarrow> bool" where
  "absentNum x = (\<not> truthyNum x)"

text \<open>The entry of occurrence \<open>i\<close> of \<open>totalOccurrences\<close>, which falls on the date \<open>d\<close>.\<close>

definition entryAt :: "food \<Rightarrow> nat \<Rightarrow> nat \<Rightarrow> int \<Rightarrow> entry" where
  "entryAt food totalOccurrences i d =
     \<lparr>entry_foodId = food_id food,
      entry_date = toISODate d,
      entry_calculatedAmount = calculateProgressiveAmount
         (food_startingAmount food) (food_targetAmount food)
         (food_progressionType food) (food_progressionDuration food)
         (Fin (of_nat i)) (Fin (of_nat totalOccurrences)),
      entry_calculatedTime = calculateProgressiveTime
         (food_startTime food) (food_timeProgression food)
         (food_timeProgressionAmount food) (Fin (of_nat i)),
      entry_occurrenceNumber = i\<rparr>"

section \<open>Rounding to a double: bounds and exact cases\<close>

lemma bits_pos: "0 < n \<Longrightarrow> bits n = Suc (bits (n div 2))"
  by (subst bits.simps) simp

lemma bits_nonpos: "n \<le> 0 \<Longrightarrow> bits n = 0"
  by (subst bits.simps) simp

lemma bits_bounds: "0 < n \<Longrightarrow> 2 ^ (bits n - 1) \<le> n \<and> n < 2 ^ bits n"
proof (induction n rule: bits.induct)
  case (1 n)
  show ?case
  proof (cases "n div 2 \<le> 0")
    case True
    with "1.prems" have "n = 1" by linarith
    then show ?thesis by (simp add: bits_pos bits_nonpos)
  next
    case False
    then have pos: "0 < n div 2" by simp
    have IH: "2 ^ (bits (n div 2) - 1) \<le> n div 2 \<and> n div 2 < 2 ^ bits (n div 2)"
      using "1.IH" "1.prems" pos by simp
    have b: "bits n = Suc (bits (n div 2))" using "1.prems" by (rule bits_pos)
    obtain k where k: "bits (n div 2) = Suc k" using bits_pos[OF pos] by blast
    from IH k have lo: "2 ^ k \<le> n div 2" and hi: "n div 2 < 2 * 2 ^ k" by simp_all
    have "2 * 2 ^ k \<le> n" using lo by linarith
    moreover have "n < 2 * (2 * 2 ^ k)" using hi by linarith
    ultimately show ?thesis by (simp add: b k)
  qed
qed

lemma ilog2_bounds:
  assumes "0 < x"
  shows "2 powi (ilog2 x) \<le> x \<and> x < 2 powi (ilog2 x + 1)"
proof (cases "1 \<le> x")
  case True
  define n where "n = \<lfloor>x\<rfloor>"
  have npos: "0 < n" using True by (simp add: n_def)
  obtain k where k: "bits n = Suc k" using bits_pos[OF npos] by blast
  from bits_bounds[OF npos] k have lo: "2 ^ k \<le> n" and hi: "n < 2 * 2 ^ k" by simp_all
  have e: "ilog2 x = int k" using True by (simp add: ilog2_def n_def[symmetric] k)
  have "(2::rat) ^ k \<le> of_int n" using lo by (metis of_int_le_iff of_int_numeral of_int_power)
  also have "\<dots> \<le> x" unfolding n_def by linarith
  finally have A: "(2::rat) ^ k \<le> x" .
  have "n + 1 \<le> 2 * 2 ^ k" using hi by linarith
  then have "(of_int (n + 1) :: rat) \<le> of_int (2 * 2 ^ k)" by (simp only: of_int_le_iff)
  then have "(of_int n :: rat) + 1 \<le> 2 * 2 ^ k" by simp
  moreover have "x < of_int n + 1" unfolding n_def by linarith
  ultimately have B: "x < 2 * 2 ^ k" by linarith
  show ?thesis using A B by (simp add: e power_int_add)
next
  case False
  define y where "y = 1 / x"
  have y1: "1 < y" using False assms by (simp add: y_def)
  define c where "c = \<lceil>y\<rceil>"
  have cpos: "0 < c - 1" using y1 by (simp add: c_def)
  obtain k where k: "bits (c - 1) = Suc k" using bits_pos[OF cpos] by blast
  from bits_bounds[OF cpos] k have lo: "2 ^ k \<le> c - 1" and hi: "c - 1 < 2 * 2 ^ k" by simp_all
  have e: "ilog2 x = - int (Suc k)"
    using False by (simp add: ilog2_def y_def[symmetric] c_def[symmetric] k)
  have "c \<le> 2 * 2 ^ k" using hi by linarith
  then have "(of_int c :: rat) \<le> of_int (2 * 2 ^ k)" by (simp only: of_int_le_iff)
  then have "(of_int c :: rat) \<le> 2 * 2 ^ k" by simp
  moreover have "y \<le> of_int c" unfolding c_def by linarith
  ultimately have "y \<le> 2 * 2 ^ k" by linarith
  then have A: "1 / (2 * 2 ^ k) \<le> x" using assms by (simp add: y_def field_simps)
  have "(of_int (2 ^ k) :: rat) \<le> of_int (c - 1)" using lo by (simp only: of_int_le_iff)
  then have "(2::rat) ^ k \<le> of_int c - 1" by simp
  moreover have "of_int c - 1 < y" unfolding c_def by linarith
  ultimately have "(2::rat) ^ k < y" by linarith
  then have B: "x < 1 / 2 ^ k" using assms by (simp add: y_def field_simps)
  have p1: "(2::rat) powi (- int (Suc k)) = 1 / (2 * 2 ^ k)"
    by (simp add: power_int_minus_divide del: of_nat_Suc)
  have p2: "(2::rat) powi (- int (Suc k) + 1) = 1 / 2 ^ k"
    by (simp add: power_int_minus_divide)
  show ?thesis using A B unfolding e p1 p2 by simp
qed

lemma ilog2_zero [simp]: "ilog2 0 = 0"
  by (simp add: ilog2_def bits_nonpos)

lemma ilog2_less: "0 < v \<Longrightarrow> v < 2 powi n \<Longrightarrow> ilog2 v < n"
proof (rule ccontr)
  assume v: "0 < v" "v < 2 powi n" and "\<not> ilog2 v < n"
  then have "n \<le> ilog2 v" by simp
  then have "(2::rat) powi n \<le> 2 powi (ilog2 v)" by (intro power_int_increasing) simp_all
  with ilog2_bounds[OF v(1)] v(2) show False by linarith
qed

lemma roundHalfEven_bounds: "\<lfloor>y\<rfloor> \<le> roundHalfEven y \<and> roundHalfEven y \<le> \<lceil>y\<rceil>"
proof -
  have "y - of_int \<lfloor>y\<rfloor> \<noteq> 0 \<Longrightarrow> \<lfloor>y\<rfloor> + 1 \<le> \<lceil>y\<rceil>"
    by (metis add.commute ceiling_altdef eq_iff_diff_eq_0 order_refl)
  moreover have "\<lfloor>y\<rfloor> \<le> \<lceil>y\<rceil>" by (simp add: floor_le_ceiling)
  ultimately show ?thesis
    by (auto simp: roundHalfEven_def Let_def)
qed

lemma rnd_pos:
  "0 < x \<Longrightarrow> rnd x =
     (let e = max (ilog2 x) (- 1022);
          v = of_int (roundHalfEven (x * 2 powi (52 - e))) * 2 powi (e - 52)
      in if 1024 \<le> ilog2 v then PosInf else Fin v)"
  by (simp add: rnd_def Let_def)

lemma rnd_neg: "rnd (- x) = dneg (rnd x)"
  by (cases "x = 0"; cases "0 < x") (auto simp: rnd_def Let_def sgn_if)

lemma powi_cancel: "(z::rat) * 2 powi a * 2 powi (- a) = z"
  by (simp add: power_int_minus field_simps)

text \<open>
  Rounding never crosses a number of the grid it rounds to: a lower bound \<open>z\<close> and an
  upper bound \<open>y'\<close> of \<open>x\<close> that are multiples of the spacing of the doubles around \<open>x\<close>
  bound the rounded value too.
\<close>

lemma rnd_ge:
  assumes x: "0 < x" and zx: "z \<le> x"
    and grid: "z * 2 powi (52 - max (ilog2 x) (- 1022)) = of_int k"
  shows "rnd x = PosInf \<or> (\<exists>v. rnd x = Fin v \<and> z \<le> v)"
proof -
  define e where "e = max (ilog2 x) (- 1022)"
  define y where "y = x * 2 powi (52 - e)"
  define v where "v = of_int (roundHalfEven y) * (2::rat) powi (e - 52)"
  have r: "rnd x = (if 1024 \<le> ilog2 v then PosInf else Fin v)"
    using x by (simp add: rnd_pos Let_def e_def y_def v_def)
  have p: "(0::rat) < 2 powi (52 - e)" by simp
  have "of_int k \<le> y" using zx p grid unfolding y_def e_def[symmetric]
    by (metis mult_le_cancel_right_pos)
  then have "k \<le> \<lfloor>y\<rfloor>" by (simp add: le_floor_iff)
  with roundHalfEven_bounds[of y] have "k \<le> roundHalfEven y" by linarith
  then have "(of_int k :: rat) \<le> of_int (roundHalfEven y)" by (simp only: of_int_le_iff)
  then have "of_int k * (2::rat) powi (e - 52) \<le> v" unfolding v_def
    by (intro mult_right_mono) simp_all
  moreover have "of_int k * (2::rat) powi (e - 52) = z"
    using powi_cancel[of z "52 - e"] grid unfolding e_def[symmetric] by simp
  ultimately have "z \<le> v" by simp
  then show ?thesis using r by auto
qed

lemma rnd_le:
  assumes x: "0 < x" and xy: "x \<le> y'" and big: "y' < 2 powi 1024"
    and grid: "y' * 2 powi (52 - max (ilog2 x) (- 1022)) = of_int k"
  shows "\<exists>v. rnd x = Fin v \<and> v \<le> y' \<and> 0 \<le> v"
proof -
  define e where "e = max (ilog2 x) (- 1022)"
  define y where "y = x * 2 powi (52 - e)"
  define v where "v = of_int (roundHalfEven y) * (2::rat) powi (e - 52)"
  have r: "rnd x = (if 1024 \<le> ilog2 v then PosInf else Fin v)"
    using x by (simp add: rnd_pos Let_def e_def y_def v_def)
  have p: "(0::rat) < 2 powi (52 - e)" by simp
  have "y \<le> of_int k" using xy p grid unfolding y_def e_def[symmetric]
    by (metis mult_le_cancel_right_pos)
  then have "\<lceil>y\<rceil> \<le> k" by (simp add: ceiling_le_iff)
  with roundHalfEven_bounds[of y] have "roundHalfEven y \<le> k" by linarith
  then have "(of_int (roundHalfEven y) :: rat) \<le> of_int k" by (simp only: of_int_le_iff)
  then have "v \<le> of_int k * (2::rat) powi (e - 52)" unfolding v_def
    by (intro mult_right_mono) simp_all
  moreover have "of_int k * (2::rat) powi (e - 52) = y'"
    using powi_cancel[of y' "52 - e"] grid unfolding e_def[symmetric] by simp
  ultimately have vy: "v \<le> y'" by simp
  have "0 \<le> y" using x by (simp add: y_def)
  then have "0 \<le> \<lfloor>y\<rfloor>" by simp
  with roundHalfEven_bounds[of y] have "0 \<le> roundHalfEven y" by linarith
  then have v0: "0 \<le> v" by (simp add: v_def)
  have "ilog2 v < 1024"
  proof (cases "v = 0")
    case True then show ?thesis by simp
  next
    case False
    with v0 have "0 < v" by simp
    moreover have "v < 2 powi 1024" using vy big by linarith
    ultimately show ?thesis by (rule ilog2_less)
  qed
  then show ?thesis using r vy v0 by auto
qed

lemma rnd_exact:
  assumes "0 < x" "x < 2 powi 1024" "x * 2 powi (52 - max (ilog2 x) (- 1022)) = of_int k"
  shows "rnd x = Fin x"
proof -
  from rnd_le[OF assms(1) order_refl assms(2) assms(3)]
  obtain v where v: "rnd x = Fin v" "v \<le> x" by blast
  from rnd_ge[OF assms(1) order_refl assms(3)] v have "x \<le> v" by auto
  with v show ?thesis by simp
qed

text \<open>A number with at most 53 significant bits and an exponent in range is a double.\<close>

lemma rnd_grid:
  assumes n: "0 < n" "n < 2 ^ 53" and j: "- 1074 \<le> j" "j \<le> 970"
  shows "rnd (of_int n * 2 powi j) = Fin (of_int n * 2 powi j)"
proof -
  define x :: rat where "x = of_int n * 2 powi j"
  have x: "0 < x" using n by (simp add: x_def)
  have "(of_int n :: rat) < of_int (2 ^ 53)" using n(2) by (simp only: of_int_less_iff)
  then have "(of_int n :: rat) < 2 powi 53" by simp
  then have "x < 2 powi 53 * 2 powi j" unfolding x_def by (intro mult_strict_right_mono) simp_all
  then have xlt: "x < 2 powi (53 + j)" by (simp add: power_int_add)
  then have il: "ilog2 x < 53 + j" using x by (intro ilog2_less)
  define e where "e = max (ilog2 x) (- 1022)"
  define d where "d = 52 - e + j"
  have d0: "0 \<le> d" using il j by (simp add: d_def e_def max_def)
  have "x * 2 powi (52 - e) = of_int n * 2 powi d"
    by (simp add: x_def d_def power_int_add power_int_diff field_simps)
  also have "\<dots> = of_int (n * 2 ^ nat d)" using d0 by (simp add: power_int_nonneg_exp)
  finally have grid: "x * 2 powi (52 - max (ilog2 x) (- 1022)) = of_int (n * 2 ^ nat d)"
    by (simp add: e_def)
  have "(2::rat) powi (53 + j) \<le> 2 powi 1024" using j by (intro power_int_increasing) simp_all
  with xlt have "x < 2 powi 1024" by linarith
  from rnd_exact[OF x this grid] show ?thesis by (simp add: x_def)
qed

lemma rnd_int: "\<bar>n\<bar> < 2 ^ 53 \<Longrightarrow> rnd (of_int n) = Fin (of_int n)"
proof -
  assume a: "\<bar>n\<bar> < 2 ^ 53"
  consider "n = 0" | "0 < n" | "n < 0" by linarith
  then show ?thesis
  proof cases
    case 1 then show ?thesis by (simp add: rnd_def)
  next
    case 2
    with a rnd_grid[of n 0] show ?thesis by simp
  next
    case 3
    with a rnd_grid[of "- n" 0] have "rnd (of_int (- n)) = Fin (of_int (- n))" by simp
    then have "dneg (rnd (of_int n)) = Fin (- of_int n)" by (simp add: rnd_neg)
    then show ?thesis by (cases "rnd (of_int n)") simp_all
  qed
qed

lemma rnd_ge_int:
  assumes N: "0 < N" "N \<le> 2 ^ 53" and x: "of_int N \<le> x"
  shows "rnd x = PosInf \<or> (\<exists>v. rnd x = Fin v \<and> of_int N \<le> v)"
proof -
  have xpos: "0 < x" using N x by (smt (verit) of_int_0_less_iff order_less_le_trans)
  define e where "e = max (ilog2 x) (- 1022)"
  show ?thesis
  proof (cases "e \<le> 52")
    case True
    then have "(of_int N :: rat) * 2 powi (52 - e) = of_int (N * 2 ^ nat (52 - e))"
      by (simp add: power_int_nonneg_exp)
    then have "(of_int N :: rat) * 2 powi (52 - max (ilog2 x) (- 1022))
                 = of_int (N * 2 ^ nat (52 - e))"
      unfolding e_def .
    from rnd_ge[OF xpos x this] show ?thesis .
  next
    case False
    then have e: "e = ilog2 x" "53 \<le> e" by (auto simp: e_def max_def)
    have zx: "2 powi e \<le> x" using ilog2_bounds[OF xpos] e by simp
    have "(2::rat) powi e * 2 powi (52 - e) = of_int (2 ^ 52)"
      by (simp add: power_int_add[symmetric])
    then have g: "(2::rat) powi e * 2 powi (52 - max (ilog2 x) (- 1022)) = of_int (2 ^ 52)"
      by (simp add: e_def)
    from rnd_ge[OF xpos zx g]
    have r: "rnd x = PosInf \<or> (\<exists>v. rnd x = Fin v \<and> 2 powi e \<le> v)" by (simp add: e_def)
    have "(2::rat) powi 53 \<le> 2 powi e" using e by (intro power_int_increasing) simp_all
    moreover have "(of_int N :: rat) \<le> of_int (2 ^ 53)" using N by (simp only: of_int_le_iff)
    ultimately have "of_int N \<le> (2::rat) powi e" by simp
    with r show ?thesis by force
  qed
qed

section \<open>The two passes as one list of occurrences\<close>

lemma shouldInclude_same: "shouldInclude1 = shouldInclude2"
  by (rule ext)+ (simp add: shouldInclude1_def shouldInclude2_def)

text \<open>
  \<^verbatim>\<open>d.setDate(d.getDate() + 1)\<close> moves a date to the same local time of day on the next
  calendar day of the host.
\<close>

lemma setDate_next:
  "setDate h t (getDate h t + 1) = TimeClip (UTC h (LocalTime h t + msPerDay))"
proof -
  have "MakeDate (MakeDayInMonth l (DateFromTime l + 1)) (TimeWithinDay l) = l + msPerDay" for l
  proof -
    have "(1 + l div msPerDay) * msPerDay + l mod msPerDay = l + msPerDay"
      by (simp add: algebra_simps)
    then show ?thesis
      by (simp add: MakeDate_def MakeDayInMonth_def DateFromTime_def TimeWithinDay_def Day_def)
  qed
  then show ?thesis by (simp add: setDate_def getDate_def Let_def)
qed

lemma advances_step:
  assumes "hostAdvances h" "setDate h t (getDate h t + 1) = Some t'"
  shows "t + 3600000 \<le> t'"
proof -
  have "t + 3600000 \<le> UTC h (LocalTime h t + msPerDay)"
    using assms(1) by (simp add: hostAdvances_def)
  moreover have "t' = UTC h (LocalTime h t + msPerDay)"
    using assms(2) by (simp add: setDate_next TimeClip_def split: if_splits)
  ultimately show ?thesis by simp
qed

lemma hosts_advance:
  "hostAdvances hostUTC" "hostAdvances europeLondon" "hostAdvances americaNewYork"
  by (simp_all add: hostAdvances_def UTC_def LocalTime_def msPerDay_def
        hostUTC_def europeLondon_def americaNewYork_def)

lemma datesFrom_stop: "\<not> t \<le> e \<Longrightarrow> datesFrom h e t = []"
  by (subst datesFrom.simps) simp

lemma datesFrom_step:
  assumes "hostAdvances h" "t \<le> e"
  shows "datesFrom h e t =
           t # (case setDate h t (getDate h t + 1) of
                  None \<Rightarrow> [] | Some t' \<Rightarrow> datesFrom h e t')"
proof (cases "setDate h t (getDate h t + 1)")
  case None
  then show ?thesis using assms(2) by (subst datesFrom.simps) simp
next
  case (Some t')
  then have "t < t'" using advances_step[OF assms(1) Some] by simp
  then show ?thesis using assms(2) Some by (subst datesFrom.simps) simp
qed

lemma datesFrom_length:
  assumes "hostAdvances h"
  shows "length (datesFrom h e t) \<le> nat ((e - t) div 3600000 + 1)"
  using assms
proof (induction h e t rule: datesFrom.induct)
  case (1 h e t)
  show ?case
  proof (cases "t \<le> e")
    case True
    have b: "0 \<le> (e - t) div 3600000" using True by simp
    show ?thesis
    proof (cases "setDate h t (getDate h t + 1)")
      case None
      then show ?thesis using b by (simp add: datesFrom_step[OF "1.prems" True])
    next
      case (Some t')
      have ge: "t + 3600000 \<le> t'" by (rule advances_step[OF "1.prems" Some])
      then have lt: "t < t'" by simp
      have "(e - t') div 3600000 \<le> (e - (t + 3600000)) div 3600000"
        by (rule zdiv_mono1) (use ge in simp_all)
      also have "\<dots> = (e - t) div 3600000 - 1" by simp
      finally have a: "(e - t') div 3600000 + 1 \<le> (e - t) div 3600000" by simp
      have "length (datesFrom h e t') \<le> nat ((e - t') div 3600000 + 1)"
        using "1.IH"[OF True Some lt "1.prems"] .
      also have "\<dots> \<le> nat ((e - t) div 3600000)" using a by simp
      finally show ?thesis
        using b by (simp add: datesFrom_step[OF "1.prems" True] Some)
    qed
  next
    case False
    then show ?thesis by (simp add: datesFrom_stop)
  qed
qed

lemma datesFrom_bounds:
  assumes "hostAdvances h" "x \<in> set (datesFrom h e t)"
  shows "t \<le> x \<and> x \<le> e"
  using assms
proof (induction h e t rule: datesFrom.induct)
  case (1 h e t)
  show ?case
  proof (cases "t \<le> e")
    case True
    note st = datesFrom_step[OF "1.prems"(1) True]
    show ?thesis
    proof (cases "setDate h t (getDate h t + 1)")
      case None
      then show ?thesis using "1.prems"(2) True by (simp add: st)
    next
      case (Some t')
      have lt: "t < t'" using advances_step[OF "1.prems"(1) Some] by simp
      from "1.prems"(2) have "x = t \<or> x \<in> set (datesFrom h e t')" by (simp add: st Some)
      then show ?thesis using "1.IH"[OF True Some lt "1.prems"(1)] True lt by auto
    qed
  next
    case False
    then show ?thesis using "1.prems"(2) by (simp add: datesFrom_stop)
  qed
qed

lemma datesFrom_sorted:
  assumes "hostAdvances h"
  shows "sorted_wrt (<) (datesFrom h e t)"
  using assms
proof (induction h e t rule: datesFrom.induct)
  case (1 h e t)
  show ?case
  proof (cases "t \<le> e")
    case True
    note st = datesFrom_step[OF "1.prems" True]
    show ?thesis
    proof (cases "setDate h t (getDate h t + 1)")
      case None
      then show ?thesis by (simp add: st)
    next
      case (Some t')
      have lt: "t < t'" using advances_step[OF "1.prems" Some] by simp
      have "t < x" if "x \<in> set (datesFrom h e t')" for x
        using datesFrom_bounds[OF "1.prems" that] lt by simp
      then show ?thesis using "1.IH"[OF True Some lt "1.prems"] by (simp add: st Some)
    qed
  next
    case False
    then show ?thesis by (simp add: datesFrom_stop)
  qed
qed

lemma firstPass_eq:
  assumes "hostAdvances h"
  shows "firstPass h f s e (Some t) acc =
           Some (acc @ map toISODate (filter (shouldInclude1 h f s) (datesFrom h e t)))"
  using assms
proof (induction h e t arbitrary: acc rule: datesFrom.induct)
  case (1 h e t)
  show ?case
  proof (cases "t \<le> e")
    case True
    note st = datesFrom_step[OF "1.prems" True]
    show ?thesis
    proof (cases "setDate h t (getDate h t + 1)")
      case None
      have stop: "firstPass h f s e None a = Some a" for a
        by (subst firstPass.simps) simp
      show ?thesis using True
        by (subst firstPass.simps) (simp add: st None stop)
    next
      case (Some t')
      have lt: "t < t'" using advances_step[OF "1.prems" Some] by simp
      show ?thesis using "1.IH"[OF True Some lt "1.prems"] True
        by (subst firstPass.simps) (simp add: st Some)
    qed
  next
    case False
    then show ?thesis by (subst firstPass.simps) (simp add: datesFrom_stop)
  qed
qed

lemma secondPass_eq:
  assumes "hostAdvances h"
  shows "secondPass h food f s e tot (Some t) n acc =
           Some (acc @ map (\<lambda>(i, d). entryAt food tot i d)
                         (enumerate n (filter (shouldInclude2 h f s) (datesFrom h e t))))"
  using assms
proof (induction h e t arbitrary: n acc rule: datesFrom.induct)
  case (1 h e t)
  show ?case
  proof (cases "t \<le> e")
    case True
    note st = datesFrom_step[OF "1.prems" True]
    have step: "secondPass h food f s e tot (Some t) n acc =
                  (if shouldInclude2 h f s t
                   then secondPass h food f s e tot (setDate h t (getDate h t + 1)) (n + 1)
                          (acc @ [entryAt food tot n t])
                   else secondPass h food f s e tot (setDate h t (getDate h t + 1)) n acc)"
      using True by (subst secondPass.simps) (simp add: entryAt_def Let_def)
    show ?thesis
    proof (cases "setDate h t (getDate h t + 1)")
      case None
      have stop: "secondPass h food f s e tot None k a = Some a" for k a
        by (subst secondPass.simps) simp
      show ?thesis unfolding step None stop by (simp add: st None)
    next
      case (Some t')
      have lt: "t < t'" using advances_step[OF "1.prems" Some] by simp
      note IH = "1.IH"[OF True Some lt "1.prems"]
      show ?thesis unfolding step Some IH by (simp add: st Some)
    qed
  next
    case False
    then show ?thesis by (subst secondPass.simps) (simp add: datesFrom_stop)
  qed
qed

lemma generate_eq:
  assumes "hostAdvances h"
  shows "generateScheduleEntriesAt h food (Some s) (Some e) =
     Some (map (\<lambda>(i, d). entryAt food
                  (length (occurrenceDates h (toLowerCase (food_frequency food)) s e)) i d)
             (enumerate 0 (occurrenceDates h (toLowerCase (food_frequency food)) s e)))"
  by (simp add: generateScheduleEntriesAt_def Let_def secondPass_eq[OF assms]
        firstPass_eq[OF assms] occurrenceDates_def shouldInclude_same)

lemma entries_dates:
  "map entry_date (map (\<lambda>(i, d). entryAt food n i d) (enumerate k ds)) = map toISODate ds"
  by (induction ds arbitrary: k) (simp_all add: entryAt_def)

lemma entries_numbers:
  "map entry_occurrenceNumber (map (\<lambda>(i, d). entryAt food n i d) (enumerate k ds))
     = [k..<k + length ds]"
proof -
  have "map entry_occurrenceNumber (map (\<lambda>(i, d). entryAt food n i d) xs) = map fst xs"
    for xs
    by (induction xs) (auto simp: entryAt_def)
  then show ?thesis by (simp only: map_fst_enumerate)
qed

section \<open>The amount without a progression\<close>

text \<open>
  Claim C8. When one of \<^verbatim>\<open>startingAmount\<close>, \<^verbatim>\<open>targetAmount\<close>, \<^verbatim>\<open>progressionType\<close> and
  \<^verbatim>\<open>progressionDuration\<close> is absent, or the progression type is \<^verbatim>\<open>static\<close>, the
  calculated amount is the starting amount as it is, for every occurrence number and every
  total; it is \<^verbatim>\<open>null\<close> when the starting amount itself is absent. Absent is what the
  source tests: \<^verbatim>\<open>null\<close>, the empty text, or the number zero.
\<close>

theorem static_or_absent_returns_startingAmount:
  "absentStr startingAmount \<or> absentStr targetAmount \<or> absentStr progressionType
     \<or> absentNum progressionDuration \<or> progressionType = Some ''static''
   \<Longrightarrow> calculateProgressiveAmount startingAmount targetAmount progressionType
         progressionDuration occurrenceNumber totalOccurrences
       = (if absentStr startingAmount then None else startingAmount)"
  by (auto simp: calculateProgressiveAmount_def absentStr_def absentNum_def)

theorem static_or_absent_witness:
  "calculateProgressiveAmount (Some ''1 teaspoon'') (Some ''3 teaspoon'') (Some ''static'')
       (Some (Fin 30)) (Fin 2) (Fin 5) = Some ''1 teaspoon''
   \<and> calculateProgressiveAmount (Some ''1 teaspoon'') None (Some ''buildup'')
       (Some (Fin 30)) (Fin 2) (Fin 5) = Some ''1 teaspoon''
   \<and> calculateProgressiveAmount None (Some ''3 teaspoon'') (Some ''buildup'')
       (Some (Fin 30)) (Fin 2) (Fin 5) = None"
  using static_or_absent_returns_startingAmount
          [of "Some ''1 teaspoon''" "Some ''3 teaspoon''" "Some ''static''" "Some (Fin 30)" "Fin 2" "Fin 5"]
        static_or_absent_returns_startingAmount
          [of "Some ''1 teaspoon''" None "Some ''buildup''" "Some (Fin 30)" "Fin 2" "Fin 5"]
        static_or_absent_returns_startingAmount
          [of None "Some ''3 teaspoon''" "Some ''buildup''" "Some (Fin 30)" "Fin 2" "Fin 5"]
  by (simp add: absentStr_def truthyStr_def)

section \<open>The occurrences of a date range\<close>

lemma rnd_one: "rnd 1 = Fin 1"
  using rnd_int[of 1] by simp

lemma progressAt_last:
  assumes "2 \<le> n" "n < 2 ^ 53"
  shows "progressAt (Fin (of_nat (n - 1))) (Fin (of_nat n)) = Fin 1"
proof -
  define m where "m = int n - 1"
  have m: "1 \<le> m" "\<bar>m\<bar> < 2 ^ 53" using assms by (simp_all add: m_def)
  have a: "(of_nat (n - 1) :: rat) = of_int m" using assms by (simp add: m_def of_nat_diff)
  have b: "(of_nat n :: rat) - 1 = of_int m" by (simp add: m_def)
  have sub: "dsub (Fin (of_nat n)) (Fin 1) = Fin (of_int m)"
    using rnd_int[OF m(2)] by (simp add: dsub_def b)
  have mx: "Math_max (Fin (of_int m)) (Fin 1) = Fin (of_int m)"
    using m by (simp add: Math_max_def)
  have dv: "ddiv (Fin (of_int m)) (Fin (of_int m)) = Fin 1"
    using m by (simp add: rnd_one)
  show ?thesis
    unfolding progressAt_def a sub mx dv by (simp add: Math_min_def)
qed

lemma valid_range_length:
  assumes "hostAdvances h" "validTime s" "validTime e"
  shows "length (occurrenceDates h f s e) < 2 ^ 53"
proof -
  have "length (occurrenceDates h f s e) \<le> length (datesFrom h e s)"
    by (simp add: occurrenceDates_def)
  also have "\<dots> \<le> nat ((e - s) div 3600000 + 1)" by (rule datesFrom_length[OF assms(1)])
  also have "\<dots> \<le> 4800000001"
  proof -
    have "e - s \<le> 17280000000000000"
      using assms(2,3) by (simp add: validTime_def maxTime_def)
    then have "(e - s) div 3600000 \<le> 17280000000000000 div 3600000"
      by (rule zdiv_mono1) simp
    then show ?thesis by simp
  qed
  finally show ?thesis by simp
qed

text \<open>
  Claim C1 says that the dates of the entries are strictly increasing and lie within the
  range, whatever the frequency. The loops mean to visit every calendar day of the range once:
  they start from the date that \<^verbatim>\<open>new Date\<close> reads as midnight UTC, print each date with
  \<^verbatim>\<open>toISOString\<close>, which is UTC, and go to the next day with \<^verbatim>\<open>setDate\<close> and \<^verbatim>\<open>getDate\<close>,
  which are local. On a host whose clocks go forward within the range the next local day
  is 23 hours later, and from then on the loops stand at 23:00 UTC of the day before: one
  day is printed twice and the end date is not reached. For a food taken daily from
  2025-03-28 to 2025-04-01 the host of Europe/London gives 2025-03-30 twice and no
  2025-04-01, where the host of UTC gives the five days.
\<close>

theorem daily_dates_repeat_across_clock_change:
  "map_option (map entry_date)
     (generateScheduleEntries europeLondon
        \<lparr>food_id = 1, food_frequency = ''Daily'', food_startingAmount = None,
         food_targetAmount = None, food_progressionType = None,
         food_progressionDuration = None, food_startTime = None,
         food_timeProgression = None, food_timeProgressionAmount = None\<rparr>
        ''2025-03-28'' ''2025-04-01'')
     = Some [''2025-03-28'', ''2025-03-29'', ''2025-03-30'', ''2025-03-30'', ''2025-03-31'']
   \<and> map_option (map entry_date)
     (generateScheduleEntries hostUTC
        \<lparr>food_id = 1, food_frequency = ''Daily'', food_startingAmount = None,
         food_targetAmount = None, food_progressionType = None,
         food_progressionDuration = None, food_startTime = None,
         food_timeProgression = None, food_timeProgressionAmount = None\<rparr>
        ''2025-03-28'' ''2025-04-01'')
     = Some [''2025-03-28'', ''2025-03-29'', ''2025-03-30'', ''2025-03-31'', ''2025-04-01'']"
  by code_simp

text \<open>
  What holds on every host that advances: the entries carry the UTC days of instants that
  are strictly increasing and lie between the start date and the end date. The days
  printed from such instants need not be different, as the example shows.
\<close>

lemma occurrence_instants_increasing_in_range:
  assumes "hostAdvances h"
  shows "map_option (map entry_date) (generateScheduleEntriesAt h food (Some s) (Some e))
           = Some (map toISODate (occurrenceDates h (toLowerCase (food_frequency food)) s e))"
    and "sorted_wrt (<) (occurrenceDates h f s e)"
    and "t \<in> set (occurrenceDates h f s e) \<Longrightarrow> s \<le> t \<and> t \<le> e"
proof -
  show "map_option (map entry_date) (generateScheduleEntriesAt h food (Some s) (Some e))
           = Some (map toISODate (occurrenceDates h (toLowerCase (food_frequency food)) s e))"
    by (simp only: generate_eq[OF assms] option.map entries_dates)
  show "sorted_wrt (<) (occurrenceDates h f s e)"
    unfolding occurrenceDates_def
    by (rule sorted_wrt_filter) (rule datesFrom_sorted[OF assms])
  show "t \<in> set (occurrenceDates h f s e) \<Longrightarrow> s \<le> t \<and> t \<le> e"
    using datesFrom_bounds[OF assms, of t e s] by (simp add: occurrenceDates_def)
qed

text \<open>
  What holds of the range on every host: an end date before the start date gives no
  entry, and so does an invalid date, for which the loops do not run.
\<close>

lemma inverted_or_invalid_range_empty:
  "e < s \<Longrightarrow> generateScheduleEntriesAt h food (Some s) (Some e) = Some []"
  "generateScheduleEntriesAt h food None endDate = Some []"
  "generateScheduleEntriesAt h food startDate None = Some []"
proof -
  show "e < s \<Longrightarrow> generateScheduleEntriesAt h food (Some s) (Some e) = Some []"
    by (simp add: generateScheduleEntriesAt_def Let_def firstPass.simps[of h _ s e "Some s"]
          secondPass.simps[of h _ _ s e _ "Some s"])
  show "generateScheduleEntriesAt h food None endDate = Some []"
    by (simp add: generateScheduleEntriesAt_def)
  show "generateScheduleEntriesAt h food startDate None = Some []"
    by (cases startDate) (simp_all add: generateScheduleEntriesAt_def)
qed

text \<open>
  Claim C7 says that the two passes agree, that the entries are numbered in order from 0
  and that the progress of the last entry therefore reaches 1. The last part fails when
  the range has exactly one occurrence: the guard \<^verbatim>\<open>Math.max(totalOccurrences - 1, 1)\<close>
  makes the progress \<open>0 / 1 = 0\<close>, so the single entry carries the starting amount.
\<close>

theorem last_progress_counterexample:
  "generateScheduleEntries hostUTC
        \<lparr>food_id = 1, food_frequency = ''daily'', food_startingAmount = Some ''1 teaspoon'',
         food_targetAmount = Some ''3 teaspoon'', food_progressionType = Some ''buildup'',
         food_progressionDuration = Some (Fin 30), food_startTime = None,
         food_timeProgression = None, food_timeProgressionAmount = None\<rparr>
        ''2025-01-01'' ''2025-01-01''
     = Some [\<lparr>entry_foodId = 1, entry_date = ''2025-01-01'',
         entry_calculatedAmount = Some ''1.00 teaspoon'', entry_calculatedTime = None,
         entry_occurrenceNumber = 0\<rparr>]
   \<and> progressAt (Fin 0) (Fin 1) = Fin 0
   \<and> progressAt (Fin 0) (Fin 1) \<noteq> Fin 1"
  by code_simp

text \<open>
  Claim C7, amended. On a host that advances both passes end. The first pass collects
  exactly the dates of the entries of the second pass, so \<^verbatim>\<open>totalOccurrences\<close> is the
  number of entries; the entries are numbered \<open>0, 1, 2, \<dots>\<close> in order; and when a range
  between valid dates has at least two entries, the last one has the number
  \<^verbatim>\<open>totalOccurrences - 1\<close> and the progress 1.
\<close>

theorem passes_agree_and_number_in_order:
  assumes "hostAdvances h"
  shows "\<exists>tempEntries entries.
       firstPass h (toLowerCase (food_frequency food)) s e (Some s) [] = Some tempEntries
     \<and> generateScheduleEntriesAt h food (Some s) (Some e) = Some entries
     \<and> tempEntries = map entry_date entries
     \<and> length tempEntries = length entries
     \<and> map entry_occurrenceNumber entries = [0..<length entries]
     \<and> (validTime s \<and> validTime e \<and> 2 \<le> length entries
        \<longrightarrow> entry_occurrenceNumber (last entries) = length tempEntries - 1
            \<and> progressAt (Fin (of_nat (entry_occurrenceNumber (last entries))))
                         (Fin (of_nat (length tempEntries)))
              = Fin 1)"
proof -
  define f where "f = toLowerCase (food_frequency food)"
  define ds where "ds = occurrenceDates h f s e"
  define es where "es = map (\<lambda>(i, d). entryAt food (length ds) i d) (enumerate 0 ds)"
  have fp: "firstPass h f s e (Some s) [] = Some (map toISODate ds)"
    by (simp add: firstPass_eq[OF assms] occurrenceDates_def shouldInclude_same ds_def)
  have gen: "generateScheduleEntriesAt h food (Some s) (Some e) = Some es"
    unfolding es_def ds_def f_def by (rule generate_eq[OF assms])
  have dates: "map entry_date es = map toISODate ds"
    unfolding es_def by (rule entries_dates)
  have nums: "map entry_occurrenceNumber es = [0..<length ds]"
    unfolding es_def using entries_numbers[of food "length ds" 0 ds] by simp
  have len: "length es = length ds" by (simp add: es_def)
  have lastn: "entry_occurrenceNumber (last es) = length es - 1" if "2 \<le> length es"
  proof -
    from that have ne: "es \<noteq> []" by auto
    have "entry_occurrenceNumber (last es) = last (map entry_occurrenceNumber es)"
      using ne by (simp add: last_map)
    also have "\<dots> = last [0..<length es]" by (simp add: nums len)
    also have "\<dots> = length es - 1" using ne by (simp add: last_upt)
    finally show ?thesis .
  qed
  have prog: "progressAt (Fin (of_nat (entry_occurrenceNumber (last es))))
                (Fin (of_nat (length (map toISODate ds)))) = Fin 1"
    if "validTime s" "validTime e" "2 \<le> length es"
    using progressAt_last[OF that(3)] valid_range_length[OF assms that(1,2), of f]
      lastn[OF that(3)]
    by (simp add: len ds_def)
  show ?thesis
    unfolding f_def[symmetric]
    by (intro exI[of _ "map toISODate ds"] exI[of _ es])
       (use fp gen dates nums len lastn prog in simp)
qed

text \<open>
  An instance: a food taken daily on the two days 2025-01-01 and 2025-01-02, on the host
  of UTC.
\<close>

theorem passes_agree_witness:
  "hostAdvances hostUTC \<and> validTime 1735689600000 \<and> validTime 1735776000000
   \<and> firstPass hostUTC (toLowerCase ''daily'') 1735689600000 1735776000000
       (Some 1735689600000) []
       = Some [''2025-01-01'', ''2025-01-02'']
   \<and> map_option (map entry_occurrenceNumber)
       (generateScheduleEntriesAt hostUTC
          \<lparr>food_id = 1, food_frequency = ''daily'', food_startingAmount = None,
           food_targetAmount = None, food_progressionType = None,
           food_progressionDuration = None, food_startTime = None,
           food_timeProgression = None, food_timeProgressionAmount = None\<rparr>
          (Some 1735689600000) (Some 1735776000000))
       = Some [0, 1]
   \<and> progressAt (Fin 1) (Fin 2) = Fin 1"
proof -
  define food0 where "food0 =
          \<lparr>food_id = 1, food_frequency = ''daily'', food_startingAmount = None,
           food_targetAmount = None, food_progressionType = None,
           food_progressionDuration = None, food_startTime = None,
           food_timeProgression = None, food_timeProgressionAmount = None\<rparr>"
  have fp: "firstPass hostUTC (toLowerCase ''daily'') 1735689600000 1735776000000
       (Some 1735689600000) [] = Some [''2025-01-01'', ''2025-01-02'']"
    by code_simp
  have v: "validTime 1735689600000" "validTime 1735776000000"
    by (simp_all add: validTime_def maxTime_def)
  have fr: "food_frequency food0 = ''daily''" by (simp add: food0_def)
  from passes_agree_and_number_in_order[OF hosts_advance(1), of food0 1735689600000 1735776000000]
  obtain tempEntries entries where
    a: "firstPass hostUTC (toLowerCase ''daily'') 1735689600000 1735776000000
       (Some 1735689600000) []
          = Some tempEntries"
    and b: "generateScheduleEntriesAt hostUTC food0 (Some 1735689600000) (Some 1735776000000)
          = Some entries"
    and c: "length tempEntries = length entries"
    and d: "map entry_occurrenceNumber entries = [0..<length entries]"
    and p: "validTime 1735689600000 \<and> validTime 1735776000000 \<and> 2 \<le> length entries
        \<longrightarrow> entry_occurrenceNumber (last entries) = length tempEntries - 1
            \<and> progressAt (Fin (of_nat (entry_occurrenceNumber (last entries))))
                         (Fin (of_nat (length tempEntries)))
              = Fin 1"
    unfolding fr by blast
  have te: "tempEntries = [''2025-01-01'', ''2025-01-02'']" using a fp by simp
  have l2: "length entries = 2" using c te by simp
  have n: "map entry_occurrenceNumber entries = [0, 1]"
    using d unfolding l2 by (simp add: upt_rec)
  have "2 \<le> length entries" using l2 by simp
  with p v have q: "entry_occurrenceNumber (last entries) = length tempEntries - 1"
    and r: "progressAt (Fin (of_nat (entry_occurrenceNumber (last entries))))
                       (Fin (of_nat (length tempEntries))) = Fin 1"
    by blast+
  have pr: "progressAt (Fin 1) (Fin 2) = Fin 1"
    using r unfolding q te by simp
  show ?thesis
    using hosts_advance(1) v fp n pr b unfolding food0_def by simp
qed

section \<open>The times-per-week family\<close>

lemma digit_chars:
  "\<forall>c \<in> set ''0123456789''. \<not> isWhiteSpace c \<and> c \<noteq> CHR ''-'' \<and> c \<noteq> CHR ''+''
      \<and> c \<noteq> CHR ''x'' \<and> c \<noteq> CHR ''X'' \<and> c \<noteq> CHR '':'' \<and> c \<noteq> CHR ''.''
      \<and> lowerChar c = c \<and> digitVal c < 10"
  by code_simp

lemma isDigit_facts:
  "isDigit c \<Longrightarrow> \<not> isWhiteSpace c \<and> c \<noteq> CHR ''-'' \<and> c \<noteq> CHR ''+'' \<and> c \<noteq> CHR ''x''
      \<and> c \<noteq> CHR ''X'' \<and> c \<noteq> CHR '':'' \<and> c \<noteq> CHR ''.'' \<and> lowerChar c = c \<and> digitVal c < 10"
proof -
  assume "isDigit c"
  then have "c \<in> set ''0123456789''" by (simp only: isDigit_def)
  from bspec[OF digit_chars this] show ?thesis .
qed

lemma digitsVal_nonneg: "0 \<le> digitsVal 10 ds"
proof -
  have "0 \<le> a \<Longrightarrow> 0 \<le> foldl (\<lambda>a c. int 10 * a + int (digitVal c)) a ds" for a
    by (induction ds arbitrary: a) simp_all
  then show ?thesis by (simp add: digitsVal_def)
qed

lemma parseInt_digits:
  assumes "m \<noteq> []" "\<forall>c \<in> set m. isDigit c"
  shows "parseInt m = rnd (of_int (digitsVal 10 m))"
proof -
  obtain c cs where m: "m = c # cs" using assms(1) by (cases m) auto
  have c: "isDigit c" using assms(2) m by simp
  have c1: "\<not> isWhiteSpace c" and c2: "c \<noteq> CHR ''-''" and c3: "c \<noteq> CHR ''+''"
    using isDigit_facts[OF c] by blast+
  have ws: "dropWhile isWhiteSpace m = m" using c1 by (simp add: m)
  have sg: "signOf m = (1, m)" using c2 c3 by (simp add: m signOf_def)
  have hex: "\<not> startsWith m ''0x'' \<and> \<not> startsWith m ''0X''"
  proof (cases cs)
    case Nil
    then show ?thesis by (simp add: m)
  next
    case (Cons d ds)
    then have "isDigit d" using assms(2) m by simp
    from isDigit_facts[OF this] have "d \<noteq> CHR ''x''" "d \<noteq> CHR ''X''" by blast+
    then show ?thesis by (auto simp: m Cons)
  qed
  have p: "digitVal (lowerChar d) < 10 \<and> lowerChar d = d" if "d \<in> set m" for d
  proof -
    from that assms(2) have "isDigit d" by blast
    from isDigit_facts[OF this] show ?thesis by simp
  qed
  have tw: "takeWhile (\<lambda>c. digitVal (lowerChar c) < 10) m = m"
    unfolding takeWhile_eq_all_conv using p by blast
  have lc: "map lowerChar m = m"
    using p by (intro map_idI) blast
  show ?thesis
    unfolding parseInt_def ws sg using assms(1) hex by (simp add: tw lc Let_def)
qed

lemma matchDigits_Some:
  assumes "matchDigits f = Some m"
  shows "m \<noteq> [] \<and> (\<forall>c \<in> set m. isDigit c)"
proof -
  define r where "r = dropWhile (\<lambda>c. \<not> isDigit c) f"
  from assms have r: "r \<noteq> []" and m: "m = takeWhile isDigit r"
    by (auto simp: matchDigits_def Let_def r_def split: if_splits)
  have "isDigit (hd r)" using hd_dropWhile[of "\<lambda>c. \<not> isDigit c" f] r by (simp add: r_def)
  then have "m \<noteq> []" using r by (cases r) (simp_all add: m)
  moreover have "\<forall>c \<in> set m. isDigit c" unfolding m by (auto dest: set_takeWhileD)
  ultimately show ?thesis by simp
qed

lemma rnd_small_iff:
  assumes "0 \<le> n" "0 \<le> k" "k \<le> 7"
  shows "rnd (of_int n) = Fin (of_int k) \<longleftrightarrow> n = k"
proof (cases "n \<le> 7")
  case True
  then have "rnd (of_int n) = Fin (of_int n)" using assms by (intro rnd_int) simp
  then show ?thesis by simp
next
  case False
  then have "(of_int 8 :: rat) \<le> of_int n" by (simp only: of_int_le_iff)
  from rnd_ge_int[OF _ _ this]
  have "rnd (of_int n) = PosInf \<or> (\<exists>v. rnd (of_int n) = Fin v \<and> 8 \<le> v)" by simp
  moreover have "(of_int k :: rat) \<le> 7" using assms(3) by (metis of_int_le_iff of_int_numeral)
  ultimately show ?thesis using False by auto
qed

text \<open>The number the source calls \<^verbatim>\<open>times\<close> is one of 1 to 7 exactly when the extracted
  integer is.\<close>

lemma times_iff:
  assumes "0 \<le> k" "k \<le> 7"
  shows "(case matchDigits f of Some m \<Rightarrow> parseInt m | None \<Rightarrow> Fin 3) = Fin (of_int k)
         \<longleftrightarrow> extractedTimes f = k"
proof (cases "matchDigits f")
  case None
  then show ?thesis by (simp add: extractedTimes_def)
next
  case (Some m)
  from matchDigits_Some[OF Some] have "parseInt m = rnd (of_int (digitsVal 10 m))"
    by (intro parseInt_digits) simp_all
  then show ?thesis
    using rnd_small_iff[OF digitsVal_nonneg assms, of m] by (simp add: Some extractedTimes_def)
qed

lemma getDay_range: "0 \<le> getDay h t \<and> getDay h t < 7"
  by (simp add: getDay_def)

lemma family_not_exact:
  assumes "timesPerWeekFamily f"
  shows "f \<notin> set [''daily'', ''every day'', ''weekly'', ''once a week'']"
proof -
  have "\<not> timesPerWeekFamily ''daily''" "\<not> timesPerWeekFamily ''every day''"
    "\<not> timesPerWeekFamily ''weekly''" "\<not> timesPerWeekFamily ''once a week''"
    by (simp_all add: timesPerWeekFamily_def)
  with assms show ?thesis by auto
qed

text \<open>
  The table of the times-per-week family is the one of the specification on every host,
  with the weekday that \<^verbatim>\<open>getDay\<close> gives: the local one.
\<close>

lemma family_include:
  assumes "timesPerWeekFamily f"
  shows "shouldInclude2 h f s t = (getDay h t \<in> set (weekdaySet (extractedTimes f) (getDay h s)))"
proof -
  define T where "T = (case matchDigits f of Some m \<Rightarrow> parseInt m | None \<Rightarrow> Fin 3)"
  define N where "N = extractedTimes f"
  have T: "T = Fin 7 \<longleftrightarrow> N = 7" "T = Fin 6 \<longleftrightarrow> N = 6" "T = Fin 5 \<longleftrightarrow> N = 5"
    "T = Fin 4 \<longleftrightarrow> N = 4" "T = Fin 3 \<longleftrightarrow> N = 3" "T = Fin 2 \<longleftrightarrow> N = 2" "T = Fin 1 \<longleftrightarrow> N = 1"
    using times_iff[of 7 f] times_iff[of 6 f] times_iff[of 5 f] times_iff[of 4 f]
      times_iff[of 3 f] times_iff[of 2 f] times_iff[of 1 f]
    by (simp_all add: T_def N_def)
  have fam: "includesStr f ''times per week'' \<or> includesStr f ''x week''
             \<or> includesStr f ''times a week''"
    using assms by (simp add: timesPerWeekFamily_def)
  have ne: "f \<noteq> ''daily''" "f \<noteq> ''every day''" "f \<noteq> ''weekly''" "f \<noteq> ''once a week''"
    using family_not_exact[OF assms] by simp_all
  have si: "shouldInclude2 h f s t =
      (if T = Fin 7 then True
       else if T = Fin 6 then getDay h t \<noteq> 0
       else if T = Fin 5 then getDay h t \<in> set [1, 2, 3, 4, 5]
       else if T = Fin 4 then getDay h t \<in> set [1, 2, 4, 5]
       else if T = Fin 3 then getDay h t \<in> set [1, 3, 5]
       else if T = Fin 2 then getDay h t \<in> set [2, 5]
       else if T = Fin 1 then getDay h t = getDay h s
       else False)"
    unfolding shouldInclude2_def T_def using fam ne by (simp add: Let_def)
  have r: "0 \<le> getDay h t" "getDay h t < 7" using getDay_range[of h t] by simp_all
  have d: "getDay h t = 0 \<or> getDay h t = 1 \<or> getDay h t = 2 \<or> getDay h t = 3 \<or> getDay h t = 4
           \<or> getDay h t = 5 \<or> getDay h t = 6"
    using r by presburger
  have r7: "getDay h t \<in> set [0, 1, 2, 3, 4, 5, 6]" using d by auto
  have r6: "getDay h t \<noteq> 0 \<longleftrightarrow> getDay h t \<in> set [1, 2, 3, 4, 5, 6]" using d by auto
  have si': "shouldInclude2 h f s t =
      (if N = 7 then True
       else if N = 6 then getDay h t \<noteq> 0
       else if N = 5 then getDay h t \<in> set [1, 2, 3, 4, 5]
       else if N = 4 then getDay h t \<in> set [1, 2, 4, 5]
       else if N = 3 then getDay h t \<in> set [1, 3, 5]
       else if N = 2 then getDay h t \<in> set [2, 5]
       else if N = 1 then getDay h t = getDay h s
       else False)"
    unfolding si T ..
  consider "N = 7" | "N = 6" | "N = 5" | "N = 4" | "N = 3" | "N = 2" | "N = 1"
    | "N \<noteq> 7 \<and> N \<noteq> 6 \<and> N \<noteq> 5 \<and> N \<noteq> 4 \<and> N \<noteq> 3 \<and> N \<noteq> 2 \<and> N \<noteq> 1"
    by blast
  then show ?thesis
  proof cases
    case 1 then show ?thesis using r7 by (simp add: si' N_def[symmetric] weekdaySet_def)
  next
    case 2 then show ?thesis using r6 by (simp add: si' N_def[symmetric] weekdaySet_def)
  qed (simp_all add: si' N_def[symmetric] weekdaySet_def)
qed

lemma occurrenceDates_family:
  assumes "timesPerWeekFamily f"
  shows "occurrenceDates h f s e =
           filter (\<lambda>t. getDay h t \<in> set (weekdaySet (extractedTimes f) (getDay h s))) (datesFrom h e s)"
  unfolding occurrenceDates_def
  by (rule filter_cong[OF refl]) (rule family_include[OF assms])

text \<open>
  Claim C2 says that a day is included exactly when its weekday is in the fixed set of the
  table, and that \<^verbatim>\<open>3 times a week\<close> from Wednesday 2025-01-01 for fourteen days gives the
  Mondays, Wednesdays and Fridays. The table of the source is the one of the claim, but
  the weekday it looks up is the local one of the host, taken with \<^verbatim>\<open>getDay\<close>, while the
  date of the entry is the UTC day, printed with \<^verbatim>\<open>toISOString\<close>. The dates come from
  \<^verbatim>\<open>new Date\<close> as midnight UTC, which on a host west of UTC is the evening of the day
  before: on the host of America/New_York the entries of the example are dated Thursday,
  Saturday and Tuesday (the weekdays 4, 6 and 2), where the host of UTC gives the Mondays,
  Wednesdays and Fridays. In the same way \<^verbatim>\<open>5 times a week\<close> for the week from 2025-01-01
  has an entry on Saturday 2025-01-04 and none on Monday 2025-01-06.
\<close>

theorem three_times_a_week_west_of_utc:
  "map_option (map entry_date)
     (generateScheduleEntries americaNewYork
        \<lparr>food_id = 1, food_frequency = ''3 times a week'', food_startingAmount = None,
         food_targetAmount = None, food_progressionType = None,
         food_progressionDuration = None, food_startTime = None,
         food_timeProgression = None, food_timeProgressionAmount = None\<rparr>
        ''2025-01-01'' ''2025-01-14'')
     = Some [''2025-01-02'', ''2025-01-04'', ''2025-01-07'', ''2025-01-09'', ''2025-01-11'',
             ''2025-01-14'']
   \<and> map (\<lambda>d. map_option (getDay hostUTC) (newDate hostUTC d))
         [''2025-01-02'', ''2025-01-04'', ''2025-01-07'', ''2025-01-09'', ''2025-01-11'',
          ''2025-01-14'']
     = [Some 4, Some 6, Some 2, Some 4, Some 6, Some 2]
   \<and> map_option (map entry_date)
     (generateScheduleEntries hostUTC
        \<lparr>food_id = 1, food_frequency = ''3 times a week'', food_startingAmount = None,
         food_targetAmount = None, food_progressionType = None,
         food_progressionDuration = None, food_startTime = None,
         food_timeProgression = None, food_timeProgressionAmount = None\<rparr>
        ''2025-01-01'' ''2025-01-14'')
     = Some [''2025-01-01'', ''2025-01-03'', ''2025-01-06'', ''2025-01-08'', ''2025-01-10'',
             ''2025-01-13'']
   \<and> map_option (map entry_date)
     (generateScheduleEntries americaNewYork
        \<lparr>food_id = 1, food_frequency = ''5 times a week'', food_startingAmount = None,
         food_targetAmount = None, food_progressionType = None,
         food_progressionDuration = None, food_startTime = None,
         food_timeProgression = None, food_timeProgressionAmount = None\<rparr>
        ''2025-01-01'' ''2025-01-07'')
     = Some [''2025-01-01'', ''2025-01-02'', ''2025-01-03'', ''2025-01-04'', ''2025-01-07'']
   \<and> map_option (map entry_date)
     (generateScheduleEntries hostUTC
        \<lparr>food_id = 1, food_frequency = ''5 times a week'', food_startingAmount = None,
         food_targetAmount = None, food_progressionType = None,
         food_progressionDuration = None, food_startTime = None,
         food_timeProgression = None, food_timeProgressionAmount = None\<rparr>
        ''2025-01-01'' ''2025-01-07'')
     = Some [''2025-01-01'', ''2025-01-02'', ''2025-01-03'', ''2025-01-06'', ''2025-01-07'']"
  by code_simp

text \<open>
  Claim C10. For a frequency of the times-per-week family whose extracted integer is not
  one of 1 to 7, no day is included, so every date range gives no entry: the family is
  recognized, no row of the table applies, and the fallback that includes every day
  belongs to the frequencies that no family recognizes. This holds on every host that
  advances, where the loops end.
\<close>

theorem times_outside_table_no_entry:
  assumes "timesPerWeekFamily (toLowerCase (food_frequency food))"
    and "extractedTimes (toLowerCase (food_frequency food)) < 1
         \<or> 7 < extractedTimes (toLowerCase (food_frequency food))"
    and "hostAdvances h"
  shows "generateScheduleEntriesAt h food startDate endDate = Some []"
proof (cases startDate)
  case None
  then show ?thesis by (simp add: generateScheduleEntriesAt_def)
next
  case s: (Some s)
  show ?thesis
  proof (cases endDate)
    case None
    then show ?thesis by (simp add: generateScheduleEntriesAt_def s)
  next
    case e: (Some e)
    have "weekdaySet (extractedTimes (toLowerCase (food_frequency food))) (getDay h s) = []"
      using assms(2) by (auto simp: weekdaySet_def)
    then have "occurrenceDates h (toLowerCase (food_frequency food)) s e = []"
      by (simp add: occurrenceDates_family[OF assms(1)])
    then show ?thesis by (simp add: s e generate_eq[OF assms(3)])
  qed
qed

text \<open>The instances named by the claim: ten and zero times a week, on the host of UTC.\<close>

theorem times_outside_table_witness:
  "timesPerWeekFamily (toLowerCase ''10 times a week'')
   \<and> 7 < extractedTimes (toLowerCase ''10 times a week'')
   \<and> hostAdvances hostUTC
   \<and> generateScheduleEntries hostUTC
        \<lparr>food_id = 1, food_frequency = ''10 times a week'', food_startingAmount = None,
         food_targetAmount = None, food_progressionType = None,
         food_progressionDuration = None, food_startTime = None,
         food_timeProgression = None, food_timeProgressionAmount = None\<rparr>
        ''2025-01-01'' ''2025-01-14'' = Some []
   \<and> timesPerWeekFamily (toLowerCase ''0 times per week'')
   \<and> extractedTimes (toLowerCase ''0 times per week'') < 1
   \<and> generateScheduleEntries hostUTC
        \<lparr>food_id = 1, food_frequency = ''0 times per week'', food_startingAmount = None,
         food_targetAmount = None, food_progressionType = None,
         food_progressionDuration = None, food_startTime = None,
         food_timeProgression = None, food_timeProgressionAmount = None\<rparr>
        ''2025-01-01'' ''2025-01-14'' = Some []"
proof -
  have a: "timesPerWeekFamily (toLowerCase ''10 times a week'')"
    "7 < extractedTimes (toLowerCase ''10 times a week'')"
    "timesPerWeekFamily (toLowerCase ''0 times per week'')"
    "extractedTimes (toLowerCase ''0 times per week'') < 1"
    by code_simp+
  show ?thesis
    using a hosts_advance(1)
      times_outside_table_no_entry
        [of "\<lparr>food_id = 1, food_frequency = ''10 times a week'', food_startingAmount = None,
         food_targetAmount = None, food_progressionType = None,
         food_progressionDuration = None, food_startTime = None,
         food_timeProgression = None, food_timeProgressionAmount = None\<rparr>"
            hostUTC "newDate hostUTC ''2025-01-01''" "newDate hostUTC ''2025-01-14''"]
      times_outside_table_no_entry
        [of "\<lparr>food_id = 1, food_frequency = ''0 times per week'', food_startingAmount = None,
         food_targetAmount = None, food_progressionType = None,
         food_progressionDuration = None, food_startTime = None,
         food_timeProgression = None, food_timeProgressionAmount = None\<rparr>"
            hostUTC "newDate hostUTC ''2025-01-01''" "newDate hostUTC ''2025-01-14''"]
    unfolding food.select_convs generateScheduleEntries_def by blast
qed

section \<open>Every other day\<close>

text \<open>
  Claim C6 says that a day of the range is included exactly when it is an even number of
  whole days after the start date, so that every second calendar day has an entry. The
  source computes the number of days from the time values, and they are those of the
  days of the range only while the loops advance by 24 hours. They advance with
  \<^verbatim>\<open>setDate\<close> and \<^verbatim>\<open>getDate\<close>, which are local, where the dates are read and printed in
  UTC: on a host whose clocks go forward within the range, the loops stand at 23:00 UTC
  of the day before from then on. For \<^verbatim>\<open>Every other day\<close> from 2025-03-28 to 2025-04-01 the
  host of Europe/London gives 2025-03-30 twice (after 2 days, and after 2 days and 23
  hours) and no 2025-04-01, where the host of UTC gives every second day.
\<close>

theorem every_other_day_across_clock_change:
  "map_option (map entry_date)
     (generateScheduleEntries europeLondon
        \<lparr>food_id = 1, food_frequency = ''Every other day'', food_startingAmount = None,
         food_targetAmount = None, food_progressionType = None,
         food_progressionDuration = None, food_startTime = None,
         food_timeProgression = None, food_timeProgressionAmount = None\<rparr>
        ''2025-03-28'' ''2025-04-01'')
     = Some [''2025-03-28'', ''2025-03-30'', ''2025-03-30'']
   \<and> map_option (map entry_date)
     (generateScheduleEntries hostUTC
        \<lparr>food_id = 1, food_frequency = ''Every other day'', food_startingAmount = None,
         food_targetAmount = None, food_progressionType = None,
         food_progressionDuration = None, food_startTime = None,
         food_timeProgression = None, food_timeProgressionAmount = None\<rparr>
        ''2025-03-28'' ''2025-04-01'')
     = Some [''2025-03-28'', ''2025-03-30'', ''2025-04-01'']"
  by code_simp

section \<open>The time of an occurrence\<close>

lemma dadd_int:
  "\<bar>x + y\<bar> < 2 ^ 53 \<Longrightarrow> dadd (Fin (of_int x)) (Fin (of_int y)) = Fin (of_int (x + y))"
  using rnd_int[of "x + y"] by simp

lemma dsub_int:
  "\<bar>x - y\<bar> < 2 ^ 53 \<Longrightarrow> dsub (Fin (of_int x)) (Fin (of_int y)) = Fin (of_int (x - y))"
  using rnd_int[of "x - y"] by (simp add: dsub_def)

lemma dmul_int:
  "\<bar>x * y\<bar> < 2 ^ 53 \<Longrightarrow> dmul (Fin (of_int x)) (Fin (of_int y)) = Fin (of_int (x * y))"
  using rnd_int[of "x * y"] by simp

lemma drem_int:
  assumes "0 < b"
  shows "drem (Fin (of_int a)) (Fin (of_int b))
           = Fin (of_int (if 0 \<le> a then a mod b else - ((- a) mod b)))"
proof (cases "0 \<le> a")
  case True
  then have "(0::rat) \<le> of_int a / of_int b" using assms by simp
  then have "truncRat (of_int a / of_int b) = a div b"
    by (simp add: truncRat_def floor_divide_of_int_eq)
  moreover have "a - b * (a div b) = a mod b" by (simp add: minus_mult_div_eq_mod)
  ultimately show ?thesis using assms True
    by (simp del: of_int_diff of_int_mult add: of_int_diff[symmetric] of_int_mult[symmetric])
next
  case False
  then have "(of_int a :: rat) / of_int b < 0" using assms by (simp add: divide_neg_pos)
  then have "truncRat (of_int a / of_int b) = \<lceil>(of_int a :: rat) / of_int b\<rceil>"
    by (simp add: truncRat_def)
  also have "\<dots> = - \<lfloor>(of_int (- a) :: rat) / of_int b\<rfloor>" by (simp add: ceiling_def)
  also have "\<dots> = - ((- a) div b)" by (simp only: floor_divide_of_int_eq)
  finally have t: "truncRat (of_int a / of_int b) = - ((- a) div b)" .
  define q where "q = (- a) div b"
  have "(- a) mod b = - a - b * q" unfolding q_def by (simp add: minus_mult_div_eq_mod)
  then have "a - b * (- q) = - ((- a) mod b)" by simp
  then have "a - b * (- ((- a) div b)) = - ((- a) mod b)" unfolding q_def .
  then have "(of_int a :: rat) - of_int b * of_int (- ((- a) div b)) = of_int (- ((- a) mod b))"
    by (metis of_int_diff of_int_mult)
  then show ?thesis using assms False by (simp add: t)
qed

lemma wrap_day:
  "drem (dadd (drem (Fin (of_int T)) (Fin (24 * 60))) (Fin (24 * 60))) (Fin (24 * 60))
     = Fin (of_int (T mod 1440))"
proof -
  define r where "r = (if 0 \<le> T then T mod 1440 else - ((- T) mod 1440))"
  have c: "Fin (24 * 60) = Fin (of_int 1440)" by simp
  have m1: "0 \<le> T mod 1440" "T mod 1440 < 1440" by simp_all
  have m2: "0 \<le> (- T) mod 1440" "(- T) mod 1440 < 1440" by simp_all
  have "- 1440 < r \<and> r < 1440"
  proof (cases "0 \<le> T")
    case True
    then have "r = T mod 1440" by (simp add: r_def)
    with m1 show ?thesis by linarith
  next
    case False
    then have "r = - ((- T) mod 1440)" by (simp add: r_def)
    with m2 show ?thesis by linarith
  qed
  then have r: "- 1440 < r" "r < 1440" by simp_all
  have 1: "drem (Fin (of_int T)) (Fin (of_int 1440)) = Fin (of_int r)"
    unfolding r_def by (rule drem_int) simp
  have 2: "dadd (Fin (of_int r)) (Fin (of_int 1440)) = Fin (of_int (r + 1440))"
    using r by (intro dadd_int) simp
  have 3: "drem (Fin (of_int (r + 1440))) (Fin (of_int 1440)) = Fin (of_int ((r + 1440) mod 1440))"
    using drem_int[of 1440 "r + 1440"] r by simp
  have "(r + 1440) mod 1440 = T mod 1440"
  proof (cases "0 \<le> T")
    case True
    then show ?thesis by (simp add: r_def)
  next
    case False
    then have "(r + 1440) mod 1440 = (- ((- T) mod 1440)) mod 1440" by (simp add: r_def)
    also have "\<dots> = (- (- T)) mod 1440" by (rule mod_minus_eq)
    finally show ?thesis by simp
  qed
  then show ?thesis unfolding c 1 2 3 by simp
qed

lemma floor_div60:
  assumes W: "0 \<le> W" "W < 1440"
  shows "Math_floor (ddiv (Fin (of_int W)) (Fin 60)) = Fin (of_int (W div 60))"
proof (cases "W = 0")
  case True
  then show ?thesis by (simp add: rnd_def)
next
  case False
  define x :: rat where "x = of_int W / 60"
  define K where "K = W div 60"
  have xpos: "0 < x" using W False by (simp add: x_def)
  have "of_int W < (1440 :: rat)" using W(2) by (metis of_int_less_iff of_int_numeral)
  then have "x < 2 powi 5" by (simp add: x_def)
  then have il: "ilog2 x < 5" using xpos by (intro ilog2_less)
  define E where "E = max (ilog2 x) (- 1022)"
  have E: "E \<le> 4" using il by (simp add: E_def)
  have Wd: "W = 60 * K + W mod 60" unfolding K_def by simp
  have Wm: "0 \<le> W mod 60" "W mod 60 < 60" by simp_all
  have Kle: "60 * K \<le> W" and Kgt: "W \<le> 60 * K + 59" using Wd Wm by linarith+
  have "(of_int (60 * K) :: rat) \<le> of_int W" using Kle by (simp only: of_int_le_iff)
  then have zx: "of_int K \<le> x" by (simp add: x_def)
  have gz: "of_int K * 2 powi (52 - max (ilog2 x) (- 1022)) = of_int (K * 2 ^ nat (52 - E))"
    unfolding E_def[symmetric] using E by (simp add: power_int_nonneg_exp)
  from rnd_ge[OF xpos zx gz]
  have ge: "rnd x = PosInf \<or> (\<exists>v. rnd x = Fin v \<and> of_int K \<le> v)" .
  define y :: rat where "y = of_int (64 * K + 63) / 64"
  have "64 * W \<le> 60 * (64 * K + 63)" using Kgt by simp
  then have "(of_int (64 * W) :: rat) \<le> of_int (60 * (64 * K + 63))" by (simp only: of_int_le_iff)
  then have xy: "x \<le> y" by (simp add: x_def y_def)
  have "K < 24" using W(2) Kle by linarith
  then have "64 * K + 63 < 64 * 32" by simp
  then have "(of_int (64 * K + 63) :: rat) < of_int (64 * 32)" by (simp only: of_int_less_iff)
  then have "y < 2 powi 5" by (simp add: y_def)
  moreover have "(2::rat) powi 5 \<le> 2 powi 1024" by (intro power_int_increasing) simp_all
  ultimately have ybig: "y < 2 powi 1024" by linarith
  have "(2::rat) powi (6 + (46 - E)) = 2 powi 6 * 2 powi (46 - E)"
    by (rule power_int_add) simp
  moreover have "6 + (46 - E) = 52 - E" by simp
  ultimately have "(2::rat) powi (52 - E) = 2 powi 6 * 2 powi (46 - E)" by simp
  also have "\<dots> = 64 * 2 ^ nat (46 - E)" using E by (simp add: power_int_nonneg_exp)
  finally have "y * 2 powi (52 - E) = of_int ((64 * K + 63) * 2 ^ nat (46 - E))"
    by (simp add: y_def)
  then have gy: "y * 2 powi (52 - max (ilog2 x) (- 1022)) = of_int ((64 * K + 63) * 2 ^ nat (46 - E))"
    by (simp add: E_def)
  from rnd_le[OF xpos xy ybig gy]
  obtain v where v: "rnd x = Fin v" "v \<le> y" by blast
  with ge have vK: "of_int K \<le> v" by auto
  have "y < of_int K + 1" by (simp add: y_def)
  with v have "v < of_int K + 1" by linarith
  with vK have "\<lfloor>v\<rfloor> = K" by (intro floor_unique) simp_all
  then show ?thesis using v by (simp add: x_def[symmetric] K_def)
qed

lemma digit_chars2:
  "\<forall>c \<in> set ''0123456789''. c \<noteq> CHR ''o'' \<and> c \<noteq> CHR ''O'' \<and> c \<noteq> CHR ''b'' \<and> c \<noteq> CHR ''B''
      \<and> c \<noteq> CHR ''e'' \<and> c \<noteq> CHR ''E'' \<and> c \<noteq> CHR ''I'' \<and> digitVal c < 10"
  by code_simp

lemma isDigit_facts2:
  "isDigit c \<Longrightarrow> c \<noteq> CHR ''o'' \<and> c \<noteq> CHR ''O'' \<and> c \<noteq> CHR ''b'' \<and> c \<noteq> CHR ''B''
      \<and> c \<noteq> CHR ''e'' \<and> c \<noteq> CHR ''E'' \<and> c \<noteq> CHR ''I'' \<and> digitVal c < 10"
proof -
  assume "isDigit c"
  then have "c \<in> set ''0123456789''" by (simp only: isDigit_def)
  from bspec[OF digit_chars2 this] show ?thesis .
qed

lemma two_digits_val:
  assumes "isDigit a" "isDigit b"
  shows "digitsVal 10 [a, b] = 10 * int (digitVal a) + int (digitVal b)"
    and "0 \<le> digitsVal 10 [a, b]" and "digitsVal 10 [a, b] \<le> 99"
  using isDigit_facts[OF assms(1)] isDigit_facts[OF assms(2)]
  by (simp_all add: digitsVal_def)

lemma Number_two_digits:
  assumes a: "isDigit a" and b: "isDigit b"
  shows "Number [a, b] = Fin (of_int (digitsVal 10 [a, b]))"
proof -
  have fa: "\<not> isWhiteSpace a" "a \<noteq> CHR ''-''" "a \<noteq> CHR ''+''" "a \<noteq> CHR ''I''"
    using isDigit_facts[OF a] isDigit_facts2[OF a] by simp_all
  have fb: "\<not> isWhiteSpace b" "b \<noteq> CHR ''x''" "b \<noteq> CHR ''X''" "b \<noteq> CHR ''o''" "b \<noteq> CHR ''O''"
    "b \<noteq> CHR ''b''" "b \<noteq> CHR ''B''"
    using isDigit_facts[OF b] isDigit_facts2[OF b] by simp_all
  have tr: "trim [a, b] = [a, b]" using fa fb by (simp add: trim_def)
  have fb2: "CHR ''x'' \<noteq> b" "CHR ''X'' \<noteq> b" "CHR ''o'' \<noteq> b" "CHR ''O'' \<noteq> b"
    "CHR ''b'' \<noteq> b" "CHR ''B'' \<noteq> b"
    using fb by blast+
  have sg: "signOf [a, b] = (1, [a, b])" using fa by (simp add: signOf_def)
  have inf: "[a, b] \<noteq> ''Infinity''" by simp
  have dp: "decimalPrefix [a, b] = Some (of_int (digitsVal 10 [a, b]), [])"
    using a b by (simp add: decimalPrefix_def exponentPart_def Let_def)
  have "\<bar>digitsVal 10 [a, b]\<bar> < 2 ^ 53" using two_digits_val(2,3)[OF a b] by simp
  then have "rnd (of_int (digitsVal 10 [a, b])) = Fin (of_int (digitsVal 10 [a, b]))"
    by (rule rnd_int)
  then show ?thesis
    unfolding Number_def tr using inf by (simp add: fb2 sg dp Let_def)
qed

lemma split_clock:
  assumes "isDigit h1" "isDigit h2" "isDigit m1" "isDigit m2"
  shows "splitStr CHR '':'' [h1, h2, CHR '':'', m1, m2] = [[h1, h2], [m1, m2]]"
  using isDigit_facts[OF assms(1)] isDigit_facts[OF assms(2)]
        isDigit_facts[OF assms(3)] isDigit_facts[OF assms(4)]
  by simp

text \<open>
  The hours and minutes of a clock are integers below 60; \<^verbatim>\<open>toString\<close> prints each of
  them with its decimal digits. The sixty cases are evaluated.
\<close>

lemma small_numbers_print_a: "\<forall>n \<in> set [0..14]. numToString (Fin (of_int n)) = natDigits n"
  by code_simp

lemma small_numbers_print_b: "\<forall>n \<in> set [15..29]. numToString (Fin (of_int n)) = natDigits n"
  by code_simp

lemma small_numbers_print_c: "\<forall>n \<in> set [30..44]. numToString (Fin (of_int n)) = natDigits n"
  by code_simp

lemma small_numbers_print_d: "\<forall>n \<in> set [45..59]. numToString (Fin (of_int n)) = natDigits n"
  by code_simp

lemma print_small:
  assumes "0 \<le> n" "n < 60"
  shows "numToString (Fin (of_int n)) = natDigits n"
proof -
  have "n \<in> set [0..14] \<or> n \<in> set [15..29] \<or> n \<in> set [30..44] \<or> n \<in> set [45..59]"
    unfolding set_upto atLeastAtMost_iff using assms by linarith
  then show ?thesis
    using bspec[OF small_numbers_print_a] bspec[OF small_numbers_print_b]
      bspec[OF small_numbers_print_c] bspec[OF small_numbers_print_d]
    by blast
qed

text \<open>
  Claim C5. For a start time of the form \<^verbatim>\<open>HH:MM\<close>, a time progression \<^verbatim>\<open>later\<close> or
  \<^verbatim>\<open>earlier\<close> and a time progression amount that is present (an integer other than zero),
  the calculated time of occurrence \<open>i\<close> is the start time in minutes, plus (for
  \<^verbatim>\<open>later\<close>) or minus (for \<^verbatim>\<open>earlier\<close>) the amount times \<open>i\<close>, reduced into
  \<open>[0, 1440)\<close> by the modulo that is never negative, and printed as zero-padded
  \<^verbatim>\<open>HH:MM\<close>. The product of the amount and \<open>i\<close> is taken below \<open>2^52\<close>, where the
  doubles of the source are exact on integers.
\<close>

theorem progressive_time_wraps:
  assumes d: "isDigit h1" "isDigit h2" "isDigit m1" "isDigit m2"
    and tp: "timeProgression = ''later'' \<or> timeProgression = ''earlier''"
    and a: "a \<noteq> 0" and bound: "\<bar>a\<bar> * int i < 2 ^ 52"
  shows "calculateProgressiveTime (Some [h1, h2, CHR '':'', m1, m2]) (Some timeProgression)
           (Some (Fin (of_int a))) (Fin (of_nat i))
     = Some (clockText ((digitsVal 10 [h1, h2] * 60 + digitsVal 10 [m1, m2]
                          + (if timeProgression = ''later'' then a * int i else - (a * int i)))
                        mod 1440))"
proof -
  define H where "H = digitsVal 10 [h1, h2]"
  define M where "M = digitsVal 10 [m1, m2]"
  define P where "P = a * int i"
  define T where "T = H * 60 + M + (if timeProgression = ''later'' then P else - P)"
  define W where "W = T mod 1440"
  have HM: "0 \<le> H" "H \<le> 99" "0 \<le> M" "M \<le> 99"
    using two_digits_val(2,3)[OF d(1,2)] two_digits_val(2,3)[OF d(3,4)] by (simp_all add: H_def M_def)
  have Pb: "\<bar>P\<bar> < 2 ^ 52" using bound by (simp add: P_def abs_mult)
  have parts: "map Number (splitStr CHR '':'' [h1, h2, CHR '':'', m1, m2])
                 = [Fin (of_int H), Fin (of_int M)]"
    unfolding split_clock[OF d] H_def M_def
    by (simp only: list.map Number_two_digits[OF d(1,2)] Number_two_digits[OF d(3,4)])
  have "dmul (Fin (of_int H)) (Fin (of_int 60)) = Fin (of_int (H * 60))"
    using HM by (intro dmul_int) simp
  moreover have "dadd (Fin (of_int (H * 60))) (Fin (of_int M)) = Fin (of_int (H * 60 + M))"
    using HM by (intro dadd_int) simp
  ultimately have t0: "dadd (dmul (Fin (of_int H)) (Fin 60)) (Fin (of_int M))
                         = Fin (of_int (H * 60 + M))"
    by (simp only: of_int_numeral)
  have "dmul (Fin (of_int a)) (Fin (of_int (int i))) = Fin (of_int (a * int i))"
    using Pb by (intro dmul_int) (simp add: P_def)
  then have pr: "dmul (Fin (of_int a)) (Fin (of_nat i)) = Fin (of_int P)"
    by (simp only: of_int_of_nat_eq P_def)
  have tl: "dadd (Fin (of_int (H * 60 + M))) (Fin (of_int P)) = Fin (of_int (H * 60 + M + P))"
    using HM Pb by (intro dadd_int) simp
  have te: "dsub (Fin (of_int (H * 60 + M))) (Fin (of_int P)) = Fin (of_int (H * 60 + M - P))"
    using HM Pb by (intro dsub_int) simp
  have Wb: "0 \<le> W" "W < 1440" by (simp_all add: W_def)
  have w: "drem (dadd (drem (Fin (of_int T)) (Fin (24 * 60))) (Fin (24 * 60))) (Fin (24 * 60))
             = Fin (of_int W)"
    unfolding W_def by (rule wrap_day)
  have nh: "Math_floor (ddiv (Fin (of_int W)) (Fin 60)) = Fin (of_int (W div 60))"
    using Wb by (rule floor_div60)
  have "drem (Fin (of_int W)) (Fin (of_int 60)) = Fin (of_int (if 0 \<le> W then W mod 60 else - ((- W) mod 60)))"
    by (rule drem_int) simp
  then have nm: "drem (Fin (of_int W)) (Fin 60) = Fin (of_int (W mod 60))"
    using Wb by (simp only: of_int_numeral if_True)
  have "0 \<le> W div 60" "W div 60 < 60" using Wb by simp_all
  then have sh: "numToString (Fin (of_int (W div 60))) = natDigits (W div 60)" by (rule print_small)
  have "0 \<le> W mod 60" "W mod 60 < 60" by simp_all
  then have sm: "numToString (Fin (of_int (W mod 60))) = natDigits (W mod 60)" by (rule print_small)
  have tr: "truthyStr (Some [h1, h2, CHR '':'', m1, m2]) = True"
    "truthyNum (Some (Fin (of_int a))) = True"
    using a by (simp_all add: truthyStr_def truthyNum_def)
  have res: "calculateProgressiveTime (Some [h1, h2, CHR '':'', m1, m2]) (Some timeProgression)
           (Some (Fin (of_int a))) (Fin (of_nat i)) = Some (clockText W)"
    using tp
  proof
    assume l: "timeProgression = ''later''"
    have c: "truthyStr (Some ''later'') = True" "(Some ''later'' = Some ''static'') = False"
      by (simp_all add: truthyStr_def)
    have T: "H * 60 + M + P = T" by (simp add: T_def l)
    show ?thesis
      unfolding l calculateProgressiveTime_def
      by (simp only: tr c simp_thms if_True if_False Let_def prod.case option.case list.case
            parts t0 pr tl T w nh nm sh sm clockText_def)
  next
    assume e: "timeProgression = ''earlier''"
    have c: "truthyStr (Some ''earlier'') = True" "(Some ''earlier'' = Some ''static'') = False"
      "(Some ''earlier'' = Some ''later'') = False"
      by (simp_all add: truthyStr_def)
    have T: "H * 60 + M - P = T" by (simp add: T_def e)
    show ?thesis
      unfolding e calculateProgressiveTime_def
      by (simp only: tr c simp_thms if_True if_False Let_def prod.case option.case list.case
            parts t0 pr te T w nh nm sh sm clockText_def)
  qed
  show ?thesis unfolding res W_def T_def H_def M_def P_def ..
qed

text \<open>
  The instance of the claim: 23:30, one hour later, is 00:30; and 00:10, one hour
  earlier, is 23:10.
\<close>

theorem progressive_time_witness:
  "isDigit CHR ''2'' \<and> isDigit CHR ''3'' \<and> isDigit CHR ''0''
   \<and> (60::int) \<noteq> 0 \<and> \<bar>60\<bar> * int 1 < 2 ^ 52
   \<and> calculateProgressiveTime (Some ''23:30'') (Some ''later'') (Some (Fin 60)) (Fin 1)
       = Some ''00:30''
   \<and> calculateProgressiveTime (Some ''00:10'') (Some ''earlier'') (Some (Fin 60)) (Fin 1)
       = Some ''23:10''"
proof -
  have dg: "isDigit CHR ''2''" "isDigit CHR ''3''" "isDigit CHR ''0''" "isDigit CHR ''1''"
    by (simp_all add: isDigit_def)
  have b: "\<bar>60\<bar> * int 1 < 2 ^ 52" by simp
  have v1: "clockText ((digitsVal 10 ''23'' * 60 + digitsVal 10 ''30'' + 60 * int 1) mod 1440) = ''00:30''"
    by code_simp
  have v2: "clockText ((digitsVal 10 ''00'' * 60 + digitsVal 10 ''10'' + - (60 * int 1)) mod 1440) = ''23:10''"
    by code_simp
  have "calculateProgressiveTime (Some ''23:30'') (Some ''later'') (Some (Fin (of_int 60))) (Fin (of_nat 1))
          = Some ''00:30''"
    using progressive_time_wraps[of "CHR ''2''" "CHR ''3''" "CHR ''3''" "CHR ''0''" "''later''" 60 1] dg b v1
    by simp
  moreover have "calculateProgressiveTime (Some ''00:10'') (Some ''earlier'') (Some (Fin (of_int 60))) (Fin (of_nat 1))
          = Some ''23:10''"
    using progressive_time_wraps[of "CHR ''0''" "CHR ''0''" "CHR ''1''" "CHR ''0''" "''earlier''" 60 1] dg b v2
    by simp
  ultimately show ?thesis using dg b by simp
qed

section \<open>The amount of an occurrence\<close>

lemma truthy_simps:
  "truthyStr (Some s) = (s \<noteq> [])" "truthyStr None = False" "truthyNum None = False"
  by (simp_all add: truthyStr_def truthyNum_def)

text \<open>
  Claim C3 says that with the progression type \<^verbatim>\<open>buildup\<close> and all four amount fields
  present the calculated amount is \<open>start + (target - start) * p\<close>, printed with two
  decimals and followed by the unit of the starting amount. It fails for a starting amount
  that does not begin with a number: the value is computed from the default magnitude 1,
  but \<^verbatim>\<open>replace\<close> finds no numeric prefix to put it in, and the starting amount is
  returned as it is.
\<close>

theorem buildup_without_prefix_counterexample:
  "calculateProgressiveAmount (Some ''teaspoon'') (Some ''3 teaspoon'') (Some ''buildup'')
       (Some (Fin 30)) (Fin 2) (Fin 5) = Some ''teaspoon''
   \<and> toFixed2 (dadd (parseAmount ''teaspoon'')
                   (dmul (dsub (parseAmount ''3 teaspoon'') (parseAmount ''teaspoon''))
                         (progressAt (Fin 2) (Fin 5)))) = ''2.00''"
  by code_simp

text \<open>
  Claim C3, amended. With the progression type \<^verbatim>\<open>buildup\<close> and all four amount fields
  present, when the starting amount begins with a numeric prefix (digits and points), the
  calculated amount is \<^verbatim>\<open>toFixed(2)\<close> of \<open>start + (target - start) * p\<close>, computed in
  doubles with \<open>p = min (i / max (n - 1, 1), 1)\<close>, followed by the text of the starting
  amount after the prefix; without such a prefix it is the starting amount unchanged.
\<close>

theorem buildup_amount:
  assumes "startingAmount \<noteq> []" "targetAmount \<noteq> []" "truthyNum progressionDuration"
  shows "calculateProgressiveAmount (Some startingAmount) (Some targetAmount) (Some ''buildup'')
           progressionDuration i n
     = Some (case matchNumPrefix startingAmount of
               Some m \<Rightarrow>
                 toFixed2 (dadd (parseAmount startingAmount)
                             (dmul (dsub (parseAmount targetAmount) (parseAmount startingAmount))
                                   (progressAt i n)))
                 @ drop (length m) startingAmount
             | None \<Rightarrow> startingAmount)"
  using assms unfolding progressAt_def
  by (simp add: calculateProgressiveAmount_def truthy_simps Let_def replaceNumPrefix_def)

text \<open>
  The instances of the claim: from 1 teaspoon to 3 teaspoon over five occurrences.
\<close>

theorem buildup_amount_witness:
  "calculateProgressiveAmount (Some ''1 teaspoon'') (Some ''3 teaspoon'') (Some ''buildup'')
       (Some (Fin 30)) (Fin 0) (Fin 5) = Some ''1.00 teaspoon''
   \<and> calculateProgressiveAmount (Some ''1 teaspoon'') (Some ''3 teaspoon'') (Some ''buildup'')
       (Some (Fin 30)) (Fin 2) (Fin 5) = Some ''2.00 teaspoon''
   \<and> calculateProgressiveAmount (Some ''1 teaspoon'') (Some ''3 teaspoon'') (Some ''buildup'')
       (Some (Fin 30)) (Fin 4) (Fin 5) = Some ''3.00 teaspoon''
   \<and> progressAt (Fin 2) (Fin 5) = Fin (1 / 2)"
proof -
  have t: "''1 teaspoon'' \<noteq> []" "''3 teaspoon'' \<noteq> []" "truthyNum (Some (Fin 30))"
    by (simp_all add: truthyNum_def)
  have m: "matchNumPrefix ''1 teaspoon'' = Some ''1''" by code_simp
  have v: "toFixed2 (dadd (parseAmount ''1 teaspoon'')
              (dmul (dsub (parseAmount ''3 teaspoon'') (parseAmount ''1 teaspoon''))
                    (progressAt (Fin 0) (Fin 5)))) = ''1.00''"
    "toFixed2 (dadd (parseAmount ''1 teaspoon'')
              (dmul (dsub (parseAmount ''3 teaspoon'') (parseAmount ''1 teaspoon''))
                    (progressAt (Fin 2) (Fin 5)))) = ''2.00''"
    "toFixed2 (dadd (parseAmount ''1 teaspoon'')
              (dmul (dsub (parseAmount ''3 teaspoon'') (parseAmount ''1 teaspoon''))
                    (progressAt (Fin 4) (Fin 5)))) = ''3.00''"
    "progressAt (Fin 2) (Fin 5) = Fin (1 / 2)"
    by code_simp+
  have "calculateProgressiveAmount (Some ''1 teaspoon'') (Some ''3 teaspoon'') (Some ''buildup'')
       (Some (Fin 30)) (Fin 0) (Fin 5) = Some ''1.00 teaspoon''
   \<and> calculateProgressiveAmount (Some ''1 teaspoon'') (Some ''3 teaspoon'') (Some ''buildup'')
       (Some (Fin 30)) (Fin 2) (Fin 5) = Some ''2.00 teaspoon''
   \<and> calculateProgressiveAmount (Some ''1 teaspoon'') (Some ''3 teaspoon'') (Some ''buildup'')
       (Some (Fin 30)) (Fin 4) (Fin 5) = Some ''3.00 teaspoon''"
    using buildup_amount[OF t, of "Fin 0" "Fin 5"] buildup_amount[OF t, of "Fin 2" "Fin 5"]
      buildup_amount[OF t, of "Fin 4" "Fin 5"]
    unfolding m v(1-3) by simp
  then show ?thesis using v(4) by blast
qed



section \<open>Malformed progression fields\<close>








end
